theory Spec2Isabelle
  imports Complex_Main "HOL-Library.Sublist"
begin

section \<open>Data model of the crawler (src/app.py)\<close>

text \<open>
  Python \<open>str\<close> values are modelled as HOL strings whose characters are the code points
  below 256. \<open>len(s)\<close> is \<open>length s\<close>; \<open>len(s.encode('utf-8'))\<close> is \<open>utf8_size s\<close>:
  one byte for a code point below 128, two bytes otherwise.
\<close>

type_synonym url = string
type_synonym str = string

definition utf8_size :: "str \<Rightarrow> nat" where
  "utf8_size s = sum_list (map (\<lambda>c. if (of_char c :: nat) < 128 then 1 else 2) s)"

text \<open>
  \<open>str.lower()\<close> on code points below 256: the ASCII capitals and the Latin-1 capitals
  (U+00C0 to U+00DE without the multiplication sign U+00D7) move up by 32.
\<close>

definition lower_char :: "char \<Rightarrow> char" where
  "lower_char c =
     (let n = (of_char c :: nat)
      in if (65 \<le> n \<and> n \<le> 90) \<or> (192 \<le> n \<and> n \<le> 214) \<or> (216 \<le> n \<and> n \<le> 222)
         then char_of (n + 32) else c)"

definition lower :: "string \<Rightarrow> string" where
  "lower s = map lower_char s"

text \<open>
  The configuration file. The source reads nested dictionaries
  (\<open>config["crawling"]["retry_limit"]\<close>); the record has one field per leaf key that
  the crawl engine reads, under the key's own name.
\<close>

record config =
  seed_urls :: "url list"
  allowed_domains :: "string list"
  code_extensions :: "string list"
  max_concurrent_requests :: int
  retry_limit :: int
  follow_external_links :: bool
  max_urls_to_crawl :: int
  max_page_size_mb :: real
  min_text_length :: int
  min_code_length :: int
  remove_duplicates :: bool

text \<open>
  What the source obtains from libraries (urllib, BeautifulSoup, hashlib, langdetect,
  pathlib, the clock) is a parameter of the model.
  \<^item> \<open>netloc\<close>, \<open>path\<close>: \<open>urlparse(url).netloc\<close> and \<open>urlparse(url).path\<close>;
  \<^item> \<open>path_suffix\<close>: \<open>Path(path).suffix\<close>;
  \<^item> \<open>soup\<close>: lines 262 to 290 of \<open>parse_content\<close>, the title, the two meta fields and
    the text of the main node; \<open>None\<close> when the parser raises;
  \<^item> \<open>hrefs\<close>: lines 157 to 166 of \<open>extract_links\<close>, the cleaned absolute URL of every
    \<open>a\<close> and \<open>link\<close> tag that was reached before an exception, in the order in which the
    resulting set is iterated later;
  \<^item> \<open>md5\<close>: \<open>hashlib.md5(content.encode('utf-8')).hexdigest()\<close>;
  \<^item> \<open>detect\<close>: \<open>detect_language\<close>, which is \<open>None\<close> when detection is unavailable,
    disabled or fails;
  \<^item> \<open>utcnow\<close>: \<open>datetime.utcnow().isoformat()\<close>.
\<close>

record html_doc =
  doc_title :: "str option"
  doc_description :: str
  doc_keywords :: str
  doc_text :: str

record library =
  netloc :: "url \<Rightarrow> string"
  path :: "url \<Rightarrow> string"
  path_suffix :: "string \<Rightarrow> string"
  soup :: "str \<Rightarrow> html_doc option"
  hrefs :: "str \<Rightarrow> url \<Rightarrow> url list"
  md5 :: "str \<Rightarrow> string"
  detect :: "str \<Rightarrow> string option"
  utcnow :: string

section \<open>URL filters\<close>

text \<open>\<open>is_allowed_domain\<close>, lines 132 to 143. \<open>allowed in domain\<close> is the substring test.\<close>

definition is_allowed_domain :: "config \<Rightarrow> library \<Rightarrow> url \<Rightarrow> bool" where
  "is_allowed_domain cfg lib u =
     (if \<not> follow_external_links cfg then True
      else let domain = lower (netloc lib u)
           in list_ex (\<lambda>allowed. sublist allowed domain) (allowed_domains cfg))"

text \<open>
  The attribute \<open>hostname\<close> that \<open>urlparse\<close> derives from a network location
  \<open>userinfo@host:port\<close>: what follows the last \<open>@\<close>; of that, the text between
  brackets if there is an opening bracket, and the text before the first colon
  otherwise; \<open>None\<close> if this is empty; lower-cased up to a percent sign, which starts
  the zone of a scoped address. The source never reads it: line 138 takes \<open>netloc\<close>.
\<close>

definition hostname :: "string \<Rightarrow> string option" where
  "hostname nl =
     (let hostinfo = rev (takeWhile (\<lambda>c. c \<noteq> CHR ''@'') (rev nl));
          host = (if CHR ''['' \<in> set hostinfo
                  then takeWhile (\<lambda>c. c \<noteq> CHR '']'')
                         (drop 1 (dropWhile (\<lambda>c. c \<noteq> CHR ''['') hostinfo))
                  else takeWhile (\<lambda>c. c \<noteq> CHR '':'') hostinfo)
      in if host = [] then None
         else Some (lower (takeWhile (\<lambda>c. c \<noteq> CHR ''%'') host)
                    @ dropWhile (\<lambda>c. c \<noteq> CHR ''%'') host))"

text \<open>\<open>is_code_url\<close>, lines 145 to 151.\<close>

definition is_code_url :: "config \<Rightarrow> library \<Rightarrow> url \<Rightarrow> bool" where
  "is_code_url cfg lib u =
     (let p = lower (path lib u)
      in list_ex (\<lambda>ext. suffix ext p) (code_extensions cfg))"

section \<open>The fetcher\<close>

text \<open>
  One request of \<open>fetch\<close> ends in a status with the decoded body, in
  \<open>asyncio.TimeoutError\<close>, or in another exception (raised by the request or by
  \<open>response.text()\<close>).
\<close>

datatype response = Status int str | Timeout | Failure

definition oversized :: "config \<Rightarrow> str \<Rightarrow> bool" where
  "oversized cfg content_text \<longleftrightarrow>
     real (utf8_size content_text) / (1024 * 1024) > max_page_size_mb cfg"

text \<open>
  The loop of \<open>fetch\<close>, lines 197 to 229. Every iteration that does not return adds one
  to \<open>retries\<close>, so the request made when the counter is \<open>retries\<close> is request number
  \<open>retries\<close>, and \<open>srv retries\<close> is what it ends in. \<open>slept\<close> lists the arguments of the
  calls of \<open>asyncio.sleep\<close> so far, in seconds. The result is the returned content
  (\<open>None\<close> as in the source) with the final \<open>slept\<close>. The semaphore of line 196 and
  the request headers have no part in what \<open>fetch\<close> returns.
\<close>

function fetch_loop :: "config \<Rightarrow> (nat \<Rightarrow> response) \<Rightarrow> nat \<Rightarrow> nat list \<Rightarrow> str option \<times> nat list" where
  "fetch_loop cfg srv retries slept =
     (if int retries < retry_limit cfg then
        (case srv retries of
           Status code content_text \<Rightarrow>
             if code = 200 then
               (if oversized cfg content_text then (None, slept)
                else (Some content_text, slept))
             else if code = 429 \<or> code = 503 then
               fetch_loop cfg srv (retries + 1) (slept @ [2 ^ retries])
             else (None, slept)
         | Timeout \<Rightarrow> fetch_loop cfg srv (retries + 1) (slept @ [1])
         | Failure \<Rightarrow> fetch_loop cfg srv (retries + 1) (slept @ [1]))
      else (None, slept))"
  by pat_completeness auto
termination
  by (relation "measure (\<lambda>(cfg, srv, retries, slept). nat (retry_limit cfg - int retries))") auto

definition fetch :: "config \<Rightarrow> (nat \<Rightarrow> response) \<Rightarrow> str option \<times> nat list" where
  "fetch cfg srv = fetch_loop cfg srv 0 []"

declare fetch_loop.simps [simp del]

section \<open>Records, statistics and the collector's state\<close>

text \<open>
  \<open>clean_text\<close>, lines 176 to 179: \<open>re.sub(r'\s+', ' ', text)\<close>, then \<open>strip()\<close>. The
  white space of Python below code point 256 is 9 to 13, 28 to 32, 133 and 160.
\<close>

definition is_space :: "char \<Rightarrow> bool" where
  "is_space c \<longleftrightarrow> (of_char c :: nat) \<in> {9, 10, 11, 12, 13, 28, 29, 30, 31, 32, 133, 160}"

function collapse_ws :: "str \<Rightarrow> str" where
  "collapse_ws [] = []"
| "collapse_ws (c # cs) =
     (if is_space c then CHR '' '' # collapse_ws (dropWhile is_space cs)
      else c # collapse_ws cs)"
  by pat_completeness auto
termination
  by (relation "measure length") (auto simp: le_imp_less_Suc length_dropWhile_le)

definition strip :: "str \<Rightarrow> str" where
  "strip s = rev (dropWhile is_space (rev (dropWhile is_space s)))"

definition clean_text :: "str \<Rightarrow> str" where
  "clean_text s = strip (collapse_ws s)"

text \<open>The two dictionaries that \<open>parse_content\<close> and \<open>parse_code_content\<close> build.\<close>

datatype data_record =
    is_Webpage: Webpage (rec_url: url) (timestamp: string) (title: str) (description: str)
      (meta_keywords: str) (content: str) (language: "string option") (size_bytes: int)
      (source_domain: string)
  | is_Code: Code (rec_url: url) (timestamp: string) (file_extension: string)
      (language: "string option") (code: str) (size_bytes: int) (source_domain: string)

text \<open>
  Class \<open>Statistics\<close>: the five counters. Its two clock readings (\<open>start_time\<close>,
  \<open>last_report_time\<close>) only feed the derived figures of \<open>to_dict\<close> and are left out.
\<close>

record statistics =
  pages_crawled :: int
  pages_failed :: int
  code_files_collected :: int
  total_bytes :: int
  duplicates_skipped :: int

text \<open>
  The attributes of \<open>EnhancedDataCollector\<close> that the crawl mutates, and \<open>data_file\<close>, the
  lines of the output file \<open>config["output"]["data_file"]\<close>, which \<open>save_data\<close> appends to.
  A time is a number of microseconds.
\<close>

record collector =
  stats :: statistics
  urls_to_visit :: "url set"
  visited_urls :: "url set"
  failed_urls :: "url \<rightharpoonup> int"
  content_hashes :: "string set"
  running :: bool
  start_time :: "nat option"
  data_file :: "data_record list"

text \<open>\<open>__init__\<close>, lines 78 to 91, in a process that finds the lines \<open>old_lines\<close> in the output file.\<close>

definition init :: "config \<Rightarrow> data_record list \<Rightarrow> collector" where
  "init cfg old_lines =
     \<lparr> stats = \<lparr> pages_crawled = 0, pages_failed = 0, code_files_collected = 0,
                 total_bytes = 0, duplicates_skipped = 0 \<rparr>,
       urls_to_visit = set (seed_urls cfg),
       visited_urls = {},
       failed_urls = Map.empty,
       content_hashes = {},
       running = True,
       start_time = None,
       data_file = old_lines \<rparr>"

text \<open>
  The fingerprint of a webpage record: \<open>get_content_hash\<close> (lines 181 to 183) of its
  \<open>content\<close> field, the cleaned text that \<open>parse_content\<close> hashed at line 300.
\<close>

definition fingerprint :: "library \<Rightarrow> data_record \<Rightarrow> string" where
  "fingerprint lib r = md5 lib (content r)"

section \<open>Extraction\<close>

text \<open>
  \<open>extract_links\<close>, lines 153 to 174: the candidates of the parser, filtered; the result
  is a set, given as the list of its elements in iteration order.
\<close>

definition extract_links :: "config \<Rightarrow> library \<Rightarrow> str \<Rightarrow> url \<Rightarrow> url list" where
  "extract_links cfg lib html base_url =
     remdups (filter (\<lambda>clean_url. (prefix ''http://'' clean_url \<or> prefix ''https://'' clean_url)
                                    \<and> is_allowed_domain cfg lib clean_url)
                     (hrefs lib html base_url))"

text \<open>\<open>parse_code_content\<close>, lines 231 to 257.\<close>

definition parse_code_content :: "config \<Rightarrow> library \<Rightarrow> str \<Rightarrow> url \<Rightarrow> data_record option" where
  "parse_code_content cfg lib content_text u =
     (let extension = path_suffix lib (path lib u)
      in if int (length content_text) < min_code_length cfg then None
         else Some (Code u (utcnow lib) extension
                      (if length content_text > 500 then detect lib (take 500 content_text) else None)
                      (take 50000 content_text)
                      (int (utf8_size content_text))
                      (netloc lib u)))"

text \<open>
  \<open>parse_content\<close>, lines 259 to 324, with the collector it reads and updates. When the
  title tag has no single string, \<open>soup.title.string\<close> is \<open>None\<close> and
  \<open>self.clean_text(title)\<close> raises while the dictionary is built, after the hash was
  stored; the handler returns \<open>None\<close>.
\<close>

definition parse_content ::
  "config \<Rightarrow> library \<Rightarrow> str \<Rightarrow> url \<Rightarrow> collector \<Rightarrow> data_record option \<times> collector" where
  "parse_content cfg lib html u s =
     (case soup lib html of
        None \<Rightarrow> (None, s)
      | Some d \<Rightarrow>
          let cleaned_text = clean_text (doc_text d) in
          if int (length cleaned_text) < min_text_length cfg then (None, s)
          else if remove_duplicates cfg \<and> md5 lib cleaned_text \<in> content_hashes s then
            (None, s\<lparr>stats := (stats s)\<lparr>duplicates_skipped := duplicates_skipped (stats s) + 1\<rparr>\<rparr>)
          else
            let s' = (if remove_duplicates cfg
                      then s\<lparr>content_hashes := insert (md5 lib cleaned_text) (content_hashes s)\<rparr>
                      else s)
            in (case doc_title d of
                  None \<Rightarrow> (None, s')
                | Some t \<Rightarrow>
                    (Some (Webpage u (utcnow lib) (clean_text t) (clean_text (doc_description d))
                             (doc_keywords d) cleaned_text (detect lib (take 1000 cleaned_text))
                             (int (utf8_size cleaned_text)) (netloc lib u)),
                     s')))"

section \<open>Persistence\<close>

text \<open>
  \<open>save_data\<close>, lines 326 to 340, called with a record. \<open>write_ok\<close> tells whether opening
  and writing the output file succeeded; when it raises, the error is logged and the
  statistics stay as they are.
\<close>

definition save_data :: "data_record \<Rightarrow> bool \<Rightarrow> collector \<Rightarrow> collector" where
  "save_data d write_ok s =
     (if write_ok then
        s\<lparr>data_file := data_file s @ [d],
          stats := (stats s)\<lparr>total_bytes := total_bytes (stats s) + size_bytes d,
                             code_files_collected :=
                               (if is_Code d then code_files_collected (stats s) + 1
                                else code_files_collected (stats s))\<rparr>\<rparr>
      else s)"

text \<open>
  The JSON document of \<open>save_checkpoint\<close>, lines 345 to 352. Of the dictionary of
  \<open>to_dict\<close> it keeps the five counters; the other keys are figures derived from the
  clock, which \<open>load_checkpoint\<close> never reads.
\<close>

record checkpoint =
  ck_timestamp :: string
  ck_visited_urls :: "url list"
  ck_urls_to_visit :: "url list"
  ck_failed_urls :: "url \<rightharpoonup> int"
  ck_statistics :: statistics
  ck_start_time :: "nat option"

text \<open>
  \<open>save_checkpoint\<close>, lines 342 to 359, when the write succeeds, in its two parts.

  Lines 345 to 352 build the dictionary \<open>state\<close> from the collector \<open>s\<close> of that
  moment. \<open>list(a_set)\<close> lists the elements once each in an order that the source
  does not fix, \<open>to_dict()\<close> copies the counters, and the start time is turned into a
  string; so these entries are any \<open>d\<close> of the shape below. The entry \<open>failed_urls\<close> is
  the collector's own dictionary, not a copy of it: what \<open>d\<close> holds there says nothing.

  Line 354 awaits the opening of the file, and other coroutines run in the meantime.
  Line 355 serialises \<open>state\<close> after that, so the failure counts in the document are
  those of the collector \<open>s'\<close> of that later moment.
\<close>

definition save_checkpoint_state :: "collector \<Rightarrow> checkpoint \<Rightarrow> bool" where
  "save_checkpoint_state s d \<longleftrightarrow>
     distinct (ck_visited_urls d) \<and> set (ck_visited_urls d) = visited_urls s \<and>
     distinct (ck_urls_to_visit d) \<and> set (ck_urls_to_visit d) = urls_to_visit s \<and>
     ck_statistics d = stats s \<and>
     ck_start_time d = start_time s"

definition save_checkpoint_dump :: "checkpoint \<Rightarrow> collector \<Rightarrow> checkpoint" where
  "save_checkpoint_dump d s' = d\<lparr>ck_failed_urls := failed_urls s'\<rparr>"


text \<open>
  \<open>load_checkpoint\<close>, lines 361 to 391, on the content of the checkpoint file: \<open>None\<close>
  when the file does not exist or does not parse.
\<close>

definition load_checkpoint :: "checkpoint option \<Rightarrow> collector \<Rightarrow> bool \<times> collector" where
  "load_checkpoint file s =
     (case file of
        None \<Rightarrow> (False, s)
      | Some state \<Rightarrow>
          (True,
           s\<lparr>visited_urls := set (ck_visited_urls state),
             urls_to_visit := set (ck_urls_to_visit state),
             failed_urls := ck_failed_urls state,
             stats := (stats s)\<lparr>pages_crawled := pages_crawled (ck_statistics state),
                                pages_failed := pages_failed (ck_statistics state),
                                code_files_collected := code_files_collected (ck_statistics state),
                                total_bytes := total_bytes (ck_statistics state),
                                duplicates_skipped := duplicates_skipped (ck_statistics state)\<rparr>,
             start_time := (case ck_start_time state of
                              None \<Rightarrow> start_time s
                            | Some t \<Rightarrow> Some t)\<rparr>))"

text \<open>
  Lines 354 and 355 on the file itself: the contents of the checkpoint file before the
  call, after \<open>open(..., 'w')\<close>, which truncates it, and after the document, serialised
  to \<open>doc\<close>, is written and the file closed.
\<close>

definition open_w :: "string \<Rightarrow> string" where
  "open_w old = []"

definition write_str :: "string \<Rightarrow> string \<Rightarrow> string" where
  "write_str cur doc = cur @ doc"

definition save_checkpoint_file :: "string \<Rightarrow> string \<Rightarrow> string list" where
  "save_checkpoint_file old doc =
     (let f = open_w old in [old, f, write_str f doc])"

section \<open>Processing one URL\<close>

text \<open>The loop of lines 427 to 429 over the new links.\<close>

fun add_links :: "config \<Rightarrow> url list \<Rightarrow> collector \<Rightarrow> collector" where
  "add_links cfg [] s = s"
| "add_links cfg (link # new_links) s =
     add_links cfg new_links
       (if link \<notin> visited_urls s \<and> int (card (urls_to_visit s)) < max_urls_to_crawl cfg
        then s\<lparr>urls_to_visit := insert link (urls_to_visit s)\<rparr>
        else s)"

text \<open>
  \<open>process_url\<close> up to its first \<open>await\<close>, lines 395 to 398: whether the coroutine goes
  on, and the collector.
\<close>

definition process_url_begin :: "url \<Rightarrow> collector \<Rightarrow> bool \<times> collector" where
  "process_url_begin u s =
     (if u \<in> visited_urls s then (False, s)
      else (True, s\<lparr>visited_urls := insert u (visited_urls s)\<rparr>))"

text \<open>
  \<open>process_url\<close> from the return of \<open>fetch\<close> on, lines 411 to 435. \<open>not content\<close> holds for
  \<open>None\<close> and for the empty string.
\<close>

definition process_url_finish ::
  "config \<Rightarrow> library \<Rightarrow> str option \<Rightarrow> bool \<Rightarrow> url \<Rightarrow> collector \<Rightarrow> collector" where
  "process_url_finish cfg lib fetched write_ok u s =
     (if fetched = None \<or> fetched = Some [] then
        s\<lparr>stats := (stats s)\<lparr>pages_failed := pages_failed (stats s) + 1\<rparr>,
          failed_urls := (failed_urls s)(u \<mapsto> (case failed_urls s u of None \<Rightarrow> 0 | Some n \<Rightarrow> n) + 1)\<rparr>
      else
        let content_text = the fetched;
            (data, s1) =
              (if is_code_url cfg lib u then (parse_code_content cfg lib content_text u, s)
               else
                 let (data, s') = parse_content cfg lib content_text u s
                 in if data \<noteq> None \<and> follow_external_links cfg
                    then (data, add_links cfg (extract_links cfg lib content_text u) s')
                    else (data, s'))
        in (case data of
              None \<Rightarrow> s1
            | Some d \<Rightarrow>
                let s2 = save_data d write_ok s1
                in s2\<lparr>stats := (stats s2)\<lparr>pages_crawled := pages_crawled (stats s2) + 1\<rparr>\<rparr>))"

text \<open>
  \<open>process_url\<close>, lines 393 to 435, run from its call to its return; the politeness
  delay of lines 401 to 405 changes no state.
\<close>

definition process_url ::
  "config \<Rightarrow> library \<Rightarrow> (nat \<Rightarrow> response) \<Rightarrow> bool \<Rightarrow> url \<Rightarrow> collector \<Rightarrow> collector" where
  "process_url cfg lib srv write_ok u s =
     (case process_url_begin u s of
        (False, s') \<Rightarrow> s'
      | (True, s') \<Rightarrow> process_url_finish cfg lib (fst (fetch cfg srv)) write_ok u s')"

section \<open>The crawl loop\<close>

text \<open>
  \<open>should_continue\<close>, lines 453 to 476. \<open>time_up\<close> says that \<open>start_time\<close> is set and the
  configured duration has elapsed.
\<close>

definition should_continue :: "config \<Rightarrow> bool \<Rightarrow> collector \<Rightarrow> bool" where
  "should_continue cfg time_up s =
     (if \<not> running s then False
      else if time_up then False
      else if urls_to_visit s = {} then False
      else if int (card (visited_urls s)) \<ge> max_urls_to_crawl cfg then False
      else True)"

text \<open>
  The start of a process: \<open>__init__\<close>, then lines 486 to 489 of \<open>run\<close>. \<open>file\<close> is the
  content of the checkpoint file, \<open>old_lines\<close> that of the output file, \<open>now\<close> the clock.
\<close>

definition start_run ::
  "config \<Rightarrow> bool \<Rightarrow> checkpoint option \<Rightarrow> data_record list \<Rightarrow> nat \<Rightarrow> collector" where
  "start_run cfg resume file old_lines now =
     (let s0 = init cfg old_lines;
          s1 = (if resume then snd (load_checkpoint file s0) else s0)
      in s1\<lparr>start_time := Some now\<rparr>)"

text \<open>
  The crawler with its surroundings: the collector of the running process, the URLs of
  \<open>urls_batch\<close> whose coroutine has not started, the URLs whose coroutine is suspended
  between line 398 and the return of \<open>fetch\<close>, the checkpoint file, the dictionaries of
  the calls of \<open>save_checkpoint\<close> that wait at line 354, and the semaphore of line 94:
  its free permits and the URLs whose \<open>fetch\<close> is inside \<open>async with self.semaphore\<close>
  (line 196), which are the requests under way.
\<close>

record world =
  proc :: collector
  urls_batch :: "url list"
  in_flight :: "url list"
  checkpoint_file :: "checkpoint option"
  drafts :: "checkpoint list"
  permits :: int
  holders :: "url list"

text \<open>
  One step of a running process. \<open>asyncio.gather\<close> (line 519) schedules the coroutines
  of a batch in order; each runs to its first \<open>await\<close>, the politeness delay of line 405,
  before any of them is resumed, so within a batch every \<open>begin_url\<close> comes before every
  \<open>acquire\<close> and \<open>finish_url\<close>. A coroutine whose delay is over enters
  \<open>async with self.semaphore\<close> when a permit is free and waits otherwise; all requests
  and retries of \<open>fetch\<close> happen inside, and every way out of \<open>fetch\<close> gives the
  permit back. After the fetch a coroutine meets no \<open>await\<close> before line 433, and what
  follows touches counters and the output file only, so \<open>finish_url\<close> is one step. The
  coroutines finish in any order, with any outcome of the requests and of the write.
  \<^item> \<open>pop\<close>: lines 501 to 515, with any choice of \<open>set.pop()\<close>;
  \<^item> \<open>begin_url\<close>: lines 395 to 398 for the next URL of the batch;
  \<^item> \<open>acquire\<close>: line 196 for a suspended URL;
  \<^item> \<open>finish_url\<close>: the return of \<open>fetch\<close> and lines 410 to 435 for a URL that holds
    a permit;
  \<^item> \<open>stop\<close>: the signal handler, or line 522;
  \<^item> \<open>snapshot_begin\<close>: lines 345 to 354 of \<open>save_checkpoint\<close>, periodic or final;
  \<^item> \<open>snapshot_write\<close>: line 355 of a call that waits at line 354.
\<close>

inductive step :: "config \<Rightarrow> library \<Rightarrow> world \<Rightarrow> world \<Rightarrow> bool" for cfg lib where
  pop:
    "\<lbrakk> urls_batch w = []; in_flight w = [];
       should_continue cfg time_up (proc w);
       batch_size = min (max_concurrent_requests cfg * 2) (int (card (urls_to_visit (proc w))));
       batch_size \<noteq> 0;
       distinct us; set us \<subseteq> urls_to_visit (proc w); int (length us) = max 0 batch_size \<rbrakk>
     \<Longrightarrow> step cfg lib w
           (w\<lparr>proc := (proc w)\<lparr>urls_to_visit := urls_to_visit (proc w) - set us\<rparr>,
              urls_batch := us\<rparr>)"
| begin_url:
    "\<lbrakk> urls_batch w = u # us; process_url_begin u (proc w) = (go, s') \<rbrakk>
     \<Longrightarrow> step cfg lib w
           (w\<lparr>proc := s', urls_batch := us,
              in_flight := (if go then in_flight w @ [u] else in_flight w)\<rparr>)"
| acquire:
    "\<lbrakk> urls_batch w = []; u \<in> set (in_flight w); u \<notin> set (holders w); 0 < permits w \<rbrakk>
     \<Longrightarrow> step cfg lib w
           (w\<lparr>permits := permits w - 1, holders := holders w @ [u]\<rparr>)"
| finish_url:
    "\<lbrakk> urls_batch w = []; u \<in> set (holders w) \<rbrakk>
     \<Longrightarrow> step cfg lib w
           (w\<lparr>proc := process_url_finish cfg lib (fst (fetch cfg srv)) write_ok u (proc w),
              in_flight := remove1 u (in_flight w),
              permits := permits w + 1, holders := remove1 u (holders w)\<rparr>)"
| stop:
    "step cfg lib w (w\<lparr>proc := (proc w)\<lparr>running := False\<rparr>\<rparr>)"
| snapshot_begin:
    "save_checkpoint_state (proc w) d \<Longrightarrow> step cfg lib w (w\<lparr>drafts := drafts w @ [d]\<rparr>)"
| snapshot_write:
    "d \<in> set (drafts w) \<Longrightarrow>
     step cfg lib w
       (w\<lparr>checkpoint_file := Some (save_checkpoint_dump d (proc w)),
          drafts := remove1 d (drafts w)\<rparr>)"

text \<open>
  The worlds that runs of the crawler reach: a first process starts without files; a
  process takes steps; a later process starts on the files that the one before left,
  with or without \<open>--resume\<close>. It finds the last checkpoint, or none that it can
  read when the process before was killed while it rewrote the file. Every process
  builds its own semaphore with \<open>max_concurrent_requests\<close> permits (line 94).
\<close>

inductive reachable :: "config \<Rightarrow> library \<Rightarrow> world \<Rightarrow> bool" for cfg lib where
  first:
    "reachable cfg lib
       \<lparr> proc = start_run cfg resume None [] now, urls_batch = [], in_flight = [],
         checkpoint_file = None, drafts = [],
         permits = max_concurrent_requests cfg, holders = [] \<rparr>"
| run:
    "\<lbrakk> reachable cfg lib w; step cfg lib w w' \<rbrakk> \<Longrightarrow> reachable cfg lib w'"
| restart:
    "\<lbrakk> reachable cfg lib w; file = checkpoint_file w \<or> file = None \<rbrakk> \<Longrightarrow>
     reachable cfg lib
       \<lparr> proc = start_run cfg resume file (data_file (proc w)) now,
         urls_batch = [], in_flight = [], checkpoint_file = file, drafts = [],
         permits = max_concurrent_requests cfg, holders = [] \<rparr>"

text \<open>The states of one process, from the world \<open>w0\<close> in which it started.\<close>

inductive reachable_from :: "config \<Rightarrow> library \<Rightarrow> world \<Rightarrow> world \<Rightarrow> bool" for cfg lib w0 where
  started: "reachable_from cfg lib w0 w0"
| stepped: "\<lbrakk> reachable_from cfg lib w0 w; step cfg lib w w' \<rbrakk> \<Longrightarrow> reachable_from cfg lib w0 w'"

text \<open>
  A library and a configuration for the examples: URLs have the form
  \<open>http://host/path\<close>, the parser returns the page as its own text and finds no links,
  and the hash of a text is the text itself.
\<close>

definition example_lib :: library where
  "example_lib =
     \<lparr> netloc = (\<lambda>u. takeWhile (\<lambda>c. c \<noteq> CHR ''/'') (drop 7 u)),
       path = (\<lambda>u. dropWhile (\<lambda>c. c \<noteq> CHR ''/'') (drop 7 u)),
       path_suffix = (\<lambda>p. []),
       soup = (\<lambda>html. Some \<lparr> doc_title = Some ''t'', doc_description = [],
                               doc_keywords = [], doc_text = html \<rparr>),
       hrefs = (\<lambda>html base_url. []),
       md5 = (\<lambda>s. s),
       detect = (\<lambda>s. None),
       utcnow = ''2024-01-01T00:00:00'' \<rparr>"

definition example_config :: config where
  "example_config =
     \<lparr> seed_urls = [''http://example.com/'', ''http://example.com/b'', ''http://example.com/c''],
       allowed_domains = [''example.com''],
       code_extensions = [''.py''],
       max_concurrent_requests = 1,
       retry_limit = 4,
       follow_external_links = True,
       max_urls_to_crawl = 5,
       max_page_size_mb = 10 / 1048576,
       min_text_length = 3,
       min_code_length = 3,
       remove_duplicates = True \<rparr>"

text \<open>
  An example run, with one permit. The first process pops two of the three seeds and
  starts both; the first fetches and stores its page (text \<open>hello\<close>); a periodic
  checkpoint is begun; the second gets 404; the checkpoint is written. A second process
  resumes from it, pops the third seed and fetches a page with the same text.
\<close>

definition trace_w0 :: world where
  "trace_w0 = \<lparr> proc = start_run example_config False None [] 0, urls_batch = [], in_flight = [],
                checkpoint_file = None, drafts = [],
                permits = max_concurrent_requests example_config, holders = [] \<rparr>"

definition trace_w1 :: world where
  "trace_w1 = trace_w0\<lparr>proc := (proc trace_w0)\<lparr>urls_to_visit :=
                  urls_to_visit (proc trace_w0) - set [''http://example.com/'', ''http://example.com/b'']\<rparr>,
                urls_batch := [''http://example.com/'', ''http://example.com/b'']\<rparr>"

definition trace_w2 :: world where
  "trace_w2 = trace_w1\<lparr>proc := snd (process_url_begin ''http://example.com/'' (proc trace_w1)),
                urls_batch := [''http://example.com/b''],
                in_flight := in_flight trace_w1 @ [''http://example.com/'']\<rparr>"

definition trace_w3 :: world where
  "trace_w3 = trace_w2\<lparr>proc := snd (process_url_begin ''http://example.com/b'' (proc trace_w2)),
                urls_batch := [],
                in_flight := in_flight trace_w2 @ [''http://example.com/b'']\<rparr>"

definition trace_w3h :: world where
  "trace_w3h = trace_w3\<lparr>permits := permits trace_w3 - 1,
                 holders := holders trace_w3 @ [''http://example.com/'']\<rparr>"

definition trace_w4 :: world where
  "trace_w4 = trace_w3h\<lparr>proc := process_url_finish example_config example_lib
                  (fst (fetch example_config (\<lambda>n. Status 200 ''hello''))) True ''http://example.com/'' (proc trace_w3h),
                in_flight := remove1 ''http://example.com/'' (in_flight trace_w3h),
                permits := permits trace_w3h + 1,
                holders := remove1 ''http://example.com/'' (holders trace_w3h)\<rparr>"

definition trace_draft :: checkpoint where
  "trace_draft = \<lparr> ck_timestamp = ''2024-01-01T00:10:00'',
                   ck_visited_urls = [''http://example.com/'', ''http://example.com/b''],
                   ck_urls_to_visit = [''http://example.com/c''],
                   ck_failed_urls = Map.empty,
                   ck_statistics = stats (proc trace_w4),
                   ck_start_time = start_time (proc trace_w4) \<rparr>"

definition trace_w4s :: world where
  "trace_w4s = trace_w4\<lparr>drafts := drafts trace_w4 @ [trace_draft]\<rparr>"

definition trace_w4h :: world where
  "trace_w4h = trace_w4s\<lparr>permits := permits trace_w4s - 1,
                 holders := holders trace_w4s @ [''http://example.com/b'']\<rparr>"

definition trace_w5 :: world where
  "trace_w5 = trace_w4h\<lparr>proc := process_url_finish example_config example_lib
                  (fst (fetch example_config (\<lambda>n. Status 404 []))) True ''http://example.com/b'' (proc trace_w4h),
                in_flight := remove1 ''http://example.com/b'' (in_flight trace_w4h),
                permits := permits trace_w4h + 1,
                holders := remove1 ''http://example.com/b'' (holders trace_w4h)\<rparr>"


definition trace_w6 :: world where
  "trace_w6 = trace_w5\<lparr>checkpoint_file := Some (save_checkpoint_dump trace_draft (proc trace_w5)),
                drafts := remove1 trace_draft (drafts trace_w5)\<rparr>"

definition trace_w7 :: world where
  "trace_w7 = \<lparr> proc = start_run example_config True (checkpoint_file trace_w6) (data_file (proc trace_w6)) 1,
                urls_batch = [], in_flight = [], checkpoint_file = checkpoint_file trace_w6,
                drafts = [], permits = max_concurrent_requests example_config, holders = [] \<rparr>"

definition trace_w8 :: world where
  "trace_w8 = trace_w7\<lparr>proc := (proc trace_w7)\<lparr>urls_to_visit :=
                  urls_to_visit (proc trace_w7) - set [''http://example.com/c'']\<rparr>,
                urls_batch := [''http://example.com/c'']\<rparr>"

definition trace_w9 :: world where
  "trace_w9 = trace_w8\<lparr>proc := snd (process_url_begin ''http://example.com/c'' (proc trace_w8)),
                urls_batch := [],
                in_flight := in_flight trace_w8 @ [''http://example.com/c'']\<rparr>"

definition trace_w9h :: world where
  "trace_w9h = trace_w9\<lparr>permits := permits trace_w9 - 1,
                 holders := holders trace_w9 @ [''http://example.com/c'']\<rparr>"

definition trace_w10 :: world where
  "trace_w10 = trace_w9h\<lparr>proc := process_url_finish example_config example_lib
                  (fst (fetch example_config (\<lambda>n. Status 200 ''hello''))) True ''http://example.com/c'' (proc trace_w9h),
                in_flight := remove1 ''http://example.com/c'' (in_flight trace_w9h),
                permits := permits trace_w9h + 1,
                holders := remove1 ''http://example.com/c'' (holders trace_w9h)\<rparr>"

text \<open>
  A branch of the example run: a checkpoint begun and written right after the first
  pop, before the coroutines of the two popped seeds have started.
\<close>

definition trace_gap_draft :: checkpoint where
  "trace_gap_draft = \<lparr> ck_timestamp = ''2024-01-01T00:05:00'',
                       ck_visited_urls = [],
                       ck_urls_to_visit = [''http://example.com/c''],
                       ck_failed_urls = Map.empty,
                       ck_statistics = stats (proc trace_w1),
                       ck_start_time = start_time (proc trace_w1) \<rparr>"

definition trace_gap1 :: world where
  "trace_gap1 = trace_w1\<lparr>drafts := drafts trace_w1 @ [trace_gap_draft]\<rparr>"

definition trace_gap2 :: world where
  "trace_gap2 = trace_gap1\<lparr>checkpoint_file := Some (save_checkpoint_dump trace_gap_draft (proc trace_gap1)),
                  drafts := remove1 trace_gap_draft (drafts trace_gap1)\<rparr>"

section \<open>What each operation leaves unchanged\<close>

lemma add_links_visited [simp]: "visited_urls (add_links cfg links s) = visited_urls s"
  by (induction links arbitrary: s) auto

lemma add_links_other [simp]:
  "content_hashes (add_links cfg links s) = content_hashes s"
  "data_file (add_links cfg links s) = data_file s"
  "stats (add_links cfg links s) = stats s"
  "failed_urls (add_links cfg links s) = failed_urls s"
  by (induction links arbitrary: s) auto

lemma parse_content_frame:
  assumes "parse_content cfg lib html u s = (data, s')"
  shows "urls_to_visit s' = urls_to_visit s" "visited_urls s' = visited_urls s"
    "data_file s' = data_file s" "failed_urls s' = failed_urls s"
    "pages_failed (stats s') = pages_failed (stats s)"
    "pages_crawled (stats s') = pages_crawled (stats s)"
  using assms
  by (auto simp: parse_content_def Let_def split: option.splits if_splits)

lemma save_data_frame [simp]:
  "urls_to_visit (save_data d ok s) = urls_to_visit s"
  "visited_urls (save_data d ok s) = visited_urls s"
  "content_hashes (save_data d ok s) = content_hashes s"
  "failed_urls (save_data d ok s) = failed_urls s"
  by (simp_all add: save_data_def)

lemma save_data_log:
  "data_file (save_data d ok s) = data_file s @ (if ok then [d] else [])"
  by (simp add: save_data_def)

lemma finish_visited [simp]:
  "visited_urls (process_url_finish cfg lib fetched ok u s) = visited_urls s"
  by (auto simp: process_url_finish_def Let_def parse_content_frame
           split: prod.splits option.splits)

lemma finish_failed:
  assumes "fetched = None \<or> fetched = Some []"
  shows "process_url_finish cfg lib fetched ok u s =
     s\<lparr>stats := (stats s)\<lparr>pages_failed := pages_failed (stats s) + 1\<rparr>,
       failed_urls := (failed_urls s)(u \<mapsto> (case failed_urls s u of None \<Rightarrow> 0 | Some n \<Rightarrow> n) + 1)\<rparr>"
  using assms by (auto simp: process_url_finish_def)

lemma load_checkpoint_hashes [simp]:
  "content_hashes (snd (load_checkpoint file s)) = content_hashes s"
  by (simp add: load_checkpoint_def split: option.splits)

section \<open>The example run, step by step\<close>

lemma example_config_fields [simp]:
  "retry_limit example_config = 4" "max_page_size_mb example_config = 10 / 1048576"
  "min_text_length example_config = 3" "remove_duplicates example_config"
  "follow_external_links example_config" "max_urls_to_crawl example_config = 5"
  "max_concurrent_requests example_config = 1" "code_extensions example_config = [''.py'']"
  "allowed_domains example_config = [''example.com'']"
  "seed_urls example_config = [''http://example.com/'', ''http://example.com/b'', ''http://example.com/c'']"
  by (simp_all add: example_config_def)

lemma fetch_hello: "fst (fetch example_config (\<lambda>n. Status 200 ''hello'')) = Some ''hello''"
  unfolding fetch_def
  by (subst fetch_loop.simps) (simp add: oversized_def utf8_size_def)

lemma fetch_404: "fst (fetch example_config (\<lambda>n. Status 404 [])) = None"
  unfolding fetch_def
  by (subst fetch_loop.simps) simp

lemma clean_text_examples:
  "clean_text ''hello'' = ''hello''" "clean_text ''t'' = ''t''" "clean_text [] = []"
  "clean_text ''hi'' = ''hi''"
  by code_simp+

lemma example_not_code:
  "\<not> is_code_url example_config example_lib ''http://example.com/''"
  "\<not> is_code_url example_config example_lib ''http://example.com/c''"
  by (simp_all add: is_code_url_def example_lib_def lower_def suffix_def)

lemma example_netloc:
  "netloc example_lib ''http://example.com/'' = ''example.com''"
  "netloc example_lib ''http://example.com/c'' = ''example.com''"
  by (simp_all add: example_lib_def)

lemma finish_hello:
  assumes "''hello'' \<notin> content_hashes s" and "\<not> is_code_url example_config example_lib u"
  shows "data_file (process_url_finish example_config example_lib (Some ''hello'') True u s)
       = data_file s @ [Webpage u ''2024-01-01T00:00:00'' ''t'' [] [] ''hello'' None 5 (netloc example_lib u)]"
    and "urls_to_visit (process_url_finish example_config example_lib (Some ''hello'') True u s) = urls_to_visit s"
    and "content_hashes (process_url_finish example_config example_lib (Some ''hello'') True u s)
       = insert ''hello'' (content_hashes s)"
    and "running (process_url_finish example_config example_lib (Some ''hello'') True u s) = running s"
    and "failed_urls (process_url_finish example_config example_lib (Some ''hello'') True u s) = failed_urls s"
    and "pages_failed (stats (process_url_finish example_config example_lib (Some ''hello'') True u s))
       = pages_failed (stats s)"
  using assms
  by (simp_all add: process_url_finish_def parse_content_def Let_def example_lib_def
        clean_text_examples extract_links_def save_data_def utf8_size_def)

lemma trace_w0_fields:
  "urls_to_visit (proc trace_w0) = {''http://example.com/'', ''http://example.com/b'', ''http://example.com/c''}"
  "visited_urls (proc trace_w0) = {}" "content_hashes (proc trace_w0) = {}"
  "data_file (proc trace_w0) = []" "running (proc trace_w0)"
  "pages_failed (stats (proc trace_w0)) = 0" "failed_urls (proc trace_w0) = Map.empty"
  "urls_batch trace_w0 = []" "in_flight trace_w0 = []" "checkpoint_file trace_w0 = None"
  "drafts trace_w0 = []" "permits trace_w0 = 1" "holders trace_w0 = []"
  by (simp_all add: trace_w0_def start_run_def init_def)

lemma trace_reach0: "reachable example_config example_lib trace_w0"
  unfolding trace_w0_def by (rule reachable.first)

lemma trace_step1: "step example_config example_lib trace_w0 trace_w1"
  unfolding trace_w1_def
  by (rule step.pop [where time_up = False and batch_size = 2])
     (simp_all add: trace_w0_fields should_continue_def)

lemma trace_w1_fields:
  "urls_to_visit (proc trace_w1) = {''http://example.com/c''}"
  "visited_urls (proc trace_w1) = {}" "content_hashes (proc trace_w1) = {}"
  "data_file (proc trace_w1) = []" "running (proc trace_w1)"
  "pages_failed (stats (proc trace_w1)) = 0" "failed_urls (proc trace_w1) = Map.empty"
  "urls_batch trace_w1 = [''http://example.com/'', ''http://example.com/b'']"
  "in_flight trace_w1 = []" "checkpoint_file trace_w1 = None"
  "drafts trace_w1 = []" "permits trace_w1 = 1" "holders trace_w1 = []"
  by (auto simp: trace_w1_def trace_w0_fields)

lemma trace_step2: "step example_config example_lib trace_w1 trace_w2"
  unfolding trace_w2_def
  using step.begin_url [of trace_w1 "''http://example.com/''" "[''http://example.com/b'']" True
      "snd (process_url_begin ''http://example.com/'' (proc trace_w1))" example_config example_lib]
  by (simp add: trace_w1_fields process_url_begin_def)

lemma trace_w2_fields:
  "urls_to_visit (proc trace_w2) = {''http://example.com/c''}"
  "visited_urls (proc trace_w2) = {''http://example.com/''}" "content_hashes (proc trace_w2) = {}"
  "data_file (proc trace_w2) = []" "running (proc trace_w2)"
  "pages_failed (stats (proc trace_w2)) = 0" "failed_urls (proc trace_w2) = Map.empty"
  "urls_batch trace_w2 = [''http://example.com/b'']"
  "in_flight trace_w2 = [''http://example.com/'']" "checkpoint_file trace_w2 = None"
  "drafts trace_w2 = []" "permits trace_w2 = 1" "holders trace_w2 = []"
  by (auto simp: trace_w2_def trace_w1_fields process_url_begin_def)

lemma trace_step3: "step example_config example_lib trace_w2 trace_w3"
  unfolding trace_w3_def
  using step.begin_url [of trace_w2 "''http://example.com/b''" "[]" True
      "snd (process_url_begin ''http://example.com/b'' (proc trace_w2))" example_config example_lib]
  by (simp add: trace_w2_fields process_url_begin_def)

lemma trace_w3_fields:
  "urls_to_visit (proc trace_w3) = {''http://example.com/c''}"
  "visited_urls (proc trace_w3) = {''http://example.com/'', ''http://example.com/b''}"
  "content_hashes (proc trace_w3) = {}"
  "data_file (proc trace_w3) = []" "running (proc trace_w3)"
  "pages_failed (stats (proc trace_w3)) = 0" "failed_urls (proc trace_w3) = Map.empty"
  "urls_batch trace_w3 = []"
  "in_flight trace_w3 = [''http://example.com/'', ''http://example.com/b'']"
  "checkpoint_file trace_w3 = None"
  "drafts trace_w3 = []" "permits trace_w3 = 1" "holders trace_w3 = []"
  by (auto simp: trace_w3_def trace_w2_fields process_url_begin_def)

lemma trace_step3h: "step example_config example_lib trace_w3 trace_w3h"
  unfolding trace_w3h_def
  by (rule step.acquire) (simp_all add: trace_w3_fields)

lemma trace_w3h_fields:
  "proc trace_w3h = proc trace_w3"
  "urls_batch trace_w3h = []"
  "in_flight trace_w3h = [''http://example.com/'', ''http://example.com/b'']"
  "checkpoint_file trace_w3h = None"
  "drafts trace_w3h = []" "permits trace_w3h = 0" "holders trace_w3h = [''http://example.com/'']"
  by (simp_all add: trace_w3h_def trace_w3_fields)

lemma trace_step4: "step example_config example_lib trace_w3h trace_w4"
  unfolding trace_w4_def
  by (rule step.finish_url) (simp_all add: trace_w3h_fields)

lemma trace_w4_fields:
  "urls_to_visit (proc trace_w4) = {''http://example.com/c''}"
  "visited_urls (proc trace_w4) = {''http://example.com/'', ''http://example.com/b''}"
  "content_hashes (proc trace_w4) = {''hello''}"
  "data_file (proc trace_w4) =
     [Webpage ''http://example.com/'' ''2024-01-01T00:00:00'' ''t'' [] [] ''hello'' None 5 ''example.com'']"
  "running (proc trace_w4)"
  "pages_failed (stats (proc trace_w4)) = 0" "failed_urls (proc trace_w4) = Map.empty"
  "urls_batch trace_w4 = []"
  "in_flight trace_w4 = [''http://example.com/b'']" "checkpoint_file trace_w4 = None"
  "drafts trace_w4 = []" "permits trace_w4 = 1" "holders trace_w4 = []"
  by (simp_all add: trace_w4_def trace_w3h_fields trace_w3_fields fetch_hello finish_hello
        example_not_code example_netloc)

lemma trace_draft_state: "save_checkpoint_state (proc trace_w4) trace_draft"
  by (auto simp: save_checkpoint_state_def trace_draft_def trace_w4_fields)

lemma trace_step4s: "step example_config example_lib trace_w4 trace_w4s"
  unfolding trace_w4s_def
  by (rule step.snapshot_begin) (rule trace_draft_state)

lemma trace_w4s_fields:
  "proc trace_w4s = proc trace_w4"
  "urls_batch trace_w4s = []"
  "in_flight trace_w4s = [''http://example.com/b'']" "checkpoint_file trace_w4s = None"
  "drafts trace_w4s = [trace_draft]" "permits trace_w4s = 1" "holders trace_w4s = []"
  by (simp_all add: trace_w4s_def trace_w4_fields)

lemma trace_step4h: "step example_config example_lib trace_w4s trace_w4h"
  unfolding trace_w4h_def
  by (rule step.acquire) (simp_all add: trace_w4s_fields)

lemma trace_w4h_fields:
  "proc trace_w4h = proc trace_w4"
  "urls_batch trace_w4h = []"
  "in_flight trace_w4h = [''http://example.com/b'']" "checkpoint_file trace_w4h = None"
  "drafts trace_w4h = [trace_draft]" "permits trace_w4h = 0"
  "holders trace_w4h = [''http://example.com/b'']"
  by (simp_all add: trace_w4h_def trace_w4s_fields)

lemma trace_step5: "step example_config example_lib trace_w4h trace_w5"
  unfolding trace_w5_def
  by (rule step.finish_url) (simp_all add: trace_w4h_fields)

lemma trace_w5_fields:
  "urls_to_visit (proc trace_w5) = {''http://example.com/c''}"
  "visited_urls (proc trace_w5) = {''http://example.com/'', ''http://example.com/b''}"
  "content_hashes (proc trace_w5) = {''hello''}"
  "data_file (proc trace_w5) =
     [Webpage ''http://example.com/'' ''2024-01-01T00:00:00'' ''t'' [] [] ''hello'' None 5 ''example.com'']"
  "running (proc trace_w5)"
  "pages_failed (stats (proc trace_w5)) = 1"
  "failed_urls (proc trace_w5) = [''http://example.com/b'' \<mapsto> 1]"
  "urls_batch trace_w5 = []"
  "in_flight trace_w5 = []" "checkpoint_file trace_w5 = None"
  "drafts trace_w5 = [trace_draft]" "permits trace_w5 = 1" "holders trace_w5 = []"
  by (simp_all add: trace_w5_def trace_w4h_fields trace_w4_fields fetch_404 finish_failed)


lemma trace_step6: "step example_config example_lib trace_w5 trace_w6"
  unfolding trace_w6_def
  by (rule step.snapshot_write) (simp add: trace_w5_fields)

lemma trace_reach1: "reachable example_config example_lib trace_w1"
  by (rule reachable.run [OF trace_reach0 trace_step1])

lemma trace_reach2: "reachable example_config example_lib trace_w2"
  by (rule reachable.run [OF trace_reach1 trace_step2])

lemma trace_reach3h: "reachable example_config example_lib trace_w3h"
  by (rule reachable.run [OF reachable.run [OF trace_reach2 trace_step3] trace_step3h])

lemma trace_reach4: "reachable example_config example_lib trace_w4"
  by (rule reachable.run [OF trace_reach3h trace_step4])

lemma trace_reach6: "reachable example_config example_lib trace_w6"
  by (rule reachable.run [OF reachable.run [OF reachable.run [OF reachable.run
        [OF trace_reach4 trace_step4s] trace_step4h] trace_step5] trace_step6])

lemma trace_reach7: "reachable example_config example_lib trace_w7"
  unfolding trace_w7_def using trace_reach6 by (rule reachable.restart) simp


lemma trace_w7_fields:
  "urls_to_visit (proc trace_w7) = {''http://example.com/c''}"
  "visited_urls (proc trace_w7) = {''http://example.com/'', ''http://example.com/b''}"
  "content_hashes (proc trace_w7) = {}"
  "data_file (proc trace_w7) =
     [Webpage ''http://example.com/'' ''2024-01-01T00:00:00'' ''t'' [] [] ''hello'' None 5 ''example.com'']"
  "running (proc trace_w7)"
  "urls_batch trace_w7 = []"
  "in_flight trace_w7 = []"
  "drafts trace_w7 = []" "permits trace_w7 = 1" "holders trace_w7 = []"
  by (auto simp: trace_w7_def trace_w6_def trace_w5_fields start_run_def load_checkpoint_def
        init_def trace_draft_def save_checkpoint_dump_def Let_def)

lemma trace_step8: "step example_config example_lib trace_w7 trace_w8"
  unfolding trace_w8_def
  by (rule step.pop [where time_up = False and batch_size = 1])
     (simp_all add: trace_w7_fields should_continue_def)

lemma trace_w8_fields:
  "urls_to_visit (proc trace_w8) = {}"
  "visited_urls (proc trace_w8) = {''http://example.com/'', ''http://example.com/b''}"
  "content_hashes (proc trace_w8) = {}"
  "data_file (proc trace_w8) =
     [Webpage ''http://example.com/'' ''2024-01-01T00:00:00'' ''t'' [] [] ''hello'' None 5 ''example.com'']"
  "urls_batch trace_w8 = [''http://example.com/c'']"
  "in_flight trace_w8 = []"
  "drafts trace_w8 = []" "permits trace_w8 = 1" "holders trace_w8 = []"
  by (auto simp: trace_w8_def trace_w7_fields)

lemma trace_step9: "step example_config example_lib trace_w8 trace_w9"
  unfolding trace_w9_def
  using step.begin_url [of trace_w8 "''http://example.com/c''" "[]" True
      "snd (process_url_begin ''http://example.com/c'' (proc trace_w8))" example_config example_lib]
  by (simp add: trace_w8_fields process_url_begin_def)

lemma trace_w9_fields:
  "urls_to_visit (proc trace_w9) = {}"
  "visited_urls (proc trace_w9) =
     {''http://example.com/'', ''http://example.com/b'', ''http://example.com/c''}"
  "content_hashes (proc trace_w9) = {}"
  "data_file (proc trace_w9) =
     [Webpage ''http://example.com/'' ''2024-01-01T00:00:00'' ''t'' [] [] ''hello'' None 5 ''example.com'']"
  "urls_batch trace_w9 = []"
  "in_flight trace_w9 = [''http://example.com/c'']"
  "drafts trace_w9 = []" "permits trace_w9 = 1" "holders trace_w9 = []"
  by (auto simp: trace_w9_def trace_w8_fields process_url_begin_def)

lemma trace_step9h: "step example_config example_lib trace_w9 trace_w9h"
  unfolding trace_w9h_def
  by (rule step.acquire) (simp_all add: trace_w9_fields)

lemma trace_w9h_fields:
  "proc trace_w9h = proc trace_w9"
  "urls_batch trace_w9h = []"
  "in_flight trace_w9h = [''http://example.com/c'']"
  "holders trace_w9h = [''http://example.com/c'']"
  by (simp_all add: trace_w9h_def trace_w9_fields)

lemma trace_step10: "step example_config example_lib trace_w9h trace_w10"
  unfolding trace_w10_def
  by (rule step.finish_url) (simp_all add: trace_w9h_fields)

lemma trace_w10_log:
  "data_file (proc trace_w10) =
     [Webpage ''http://example.com/'' ''2024-01-01T00:00:00'' ''t'' [] [] ''hello'' None 5 ''example.com'',
      Webpage ''http://example.com/c'' ''2024-01-01T00:00:00'' ''t'' [] [] ''hello'' None 5 ''example.com'']"
  by (simp add: trace_w10_def trace_w9h_fields trace_w9_fields fetch_hello finish_hello
        example_not_code example_netloc)

lemma trace_second_process: "reachable_from example_config example_lib trace_w7 trace_w10"
  by (rule reachable_from.stepped [OF reachable_from.stepped [OF reachable_from.stepped
        [OF reachable_from.stepped [OF reachable_from.started trace_step8] trace_step9]
        trace_step9h] trace_step10])

lemma trace_gap_state: "save_checkpoint_state (proc trace_w1) trace_gap_draft"
  by (auto simp: save_checkpoint_state_def trace_gap_draft_def trace_w1_fields)

lemma trace_reach_gap2: "reachable example_config example_lib trace_gap2"
proof -
  have one: "step example_config example_lib trace_w1 trace_gap1"
    unfolding trace_gap1_def by (rule step.snapshot_begin) (rule trace_gap_state)
  have two: "step example_config example_lib trace_gap1 trace_gap2"
    unfolding trace_gap2_def
    by (rule step.snapshot_write) (simp add: trace_gap1_def trace_w1_fields)
  show ?thesis
    by (rule reachable.run [OF reachable.run [OF trace_reach1 one] two])
qed

lemma trace_gap2_fields:
  "proc trace_gap2 = proc trace_w1"
  "urls_batch trace_gap2 = [''http://example.com/'', ''http://example.com/b'']"
  "checkpoint_file trace_gap2 = Some (save_checkpoint_dump trace_gap_draft (proc trace_w1))"
  by (simp_all add: trace_gap2_def trace_gap1_def trace_w1_fields)

section \<open>The domain filter\<close>

lemma hostname_bare:
  assumes "nl \<noteq> []"
    and "CHR ''@'' \<notin> set nl" and "CHR '':'' \<notin> set nl"
    and "CHR ''['' \<notin> set nl" and "CHR ''%'' \<notin> set nl"
  shows "hostname nl = Some (lower nl)"
proof -
  have "takeWhile (\<lambda>c. c \<noteq> CHR ''@'') (rev nl) = rev nl"
    using assms(2) by (auto simp: takeWhile_eq_all_conv)
  then have a: "rev (takeWhile (\<lambda>c. c \<noteq> CHR ''@'') (rev nl)) = nl"
    by (metis rev_rev_ident)
  have b: "takeWhile (\<lambda>c. c \<noteq> CHR '':'') nl = nl"
    using assms(3) by (auto simp: takeWhile_eq_all_conv)
  have c: "takeWhile (\<lambda>c. c \<noteq> CHR ''%'') nl = nl"
    using assms(5) by (auto simp: takeWhile_eq_all_conv)
  have d: "dropWhile (\<lambda>c. c \<noteq> CHR ''%'') nl = []"
    using assms(5) by (auto simp: dropWhile_eq_Nil_conv)
  show ?thesis
    using assms(1,4) by (simp add: hostname_def Let_def a b c d)
qed

text \<open>
  Claim C9, as the code has it. \<open>is_allowed_domain\<close> accepts every URL when
  \<open>follow_external_links\<close> is off; when it is on, it accepts a URL exactly when one of
  the configured domains is a substring of the lower-cased network location of the
  URL, which is the user information, the host and the port together. For a network
  location that is a bare host name this is the lower-cased host name of the URL.
\<close>

theorem is_allowed_domain_iff:
  "(is_allowed_domain cfg lib u \<longleftrightarrow>
      \<not> follow_external_links cfg \<or>
      (\<exists>allowed \<in> set (allowed_domains cfg). sublist allowed (lower (netloc lib u))))
   \<and> (netloc lib u \<noteq> [] \<and> CHR ''@'' \<notin> set (netloc lib u) \<and> CHR '':'' \<notin> set (netloc lib u)
        \<and> CHR ''['' \<notin> set (netloc lib u) \<and> CHR ''%'' \<notin> set (netloc lib u) \<longrightarrow>
        hostname (netloc lib u) = Some (lower (netloc lib u)))"
  using hostname_bare [of "netloc lib u"]
  by (simp add: is_allowed_domain_def list_ex_iff)

theorem is_allowed_domain_iff_witness:
  "follow_external_links example_config
   \<and> is_allowed_domain example_config example_lib ''http://NotExample.com.evil.org/x''
   \<and> hostname (netloc example_lib ''http://NotExample.com.evil.org/x'') = Some ''notexample.com.evil.org''"
proof -
  have n: "netloc example_lib ''http://NotExample.com.evil.org/x'' = ''NotExample.com.evil.org''"
    by (simp add: example_lib_def)
  have l: "lower ''NotExample.com.evil.org'' = ''notexample.com.evil.org''"
    by code_simp
  have s: "sublist ''example.com'' ''notexample.com.evil.org''"
    by code_simp
  have bare: "''NotExample.com.evil.org'' \<noteq> [] \<and> CHR ''@'' \<notin> set ''NotExample.com.evil.org''
      \<and> CHR '':'' \<notin> set ''NotExample.com.evil.org'' \<and> CHR ''['' \<notin> set ''NotExample.com.evil.org''
      \<and> CHR ''%'' \<notin> set ''NotExample.com.evil.org''"
    by simp
  show ?thesis
    using n l s bare
      is_allowed_domain_iff [of example_config example_lib "''http://NotExample.com.evil.org/x''"]
    by simp
qed

text \<open>
  The claim as the specification states it fails. With \<open>example.com\<close> allowed, the link
  \<open>http://example.com@evil.org/x\<close> is accepted, although its host name is \<open>evil.org\<close>
  and contains no allowed domain: the allowed domain is in the user information.
\<close>

theorem is_allowed_domain_counterexample:
  "follow_external_links example_config
   \<and> allowed_domains example_config = [''example.com'']
   \<and> is_allowed_domain example_config example_lib ''http://example.com@evil.org/x''
   \<and> netloc example_lib ''http://example.com@evil.org/x'' = ''example.com@evil.org''
   \<and> hostname ''example.com@evil.org'' = Some ''evil.org''
   \<and> \<not> sublist ''example.com'' ''evil.org''"
proof -
  have n: "netloc example_lib ''http://example.com@evil.org/x'' = ''example.com@evil.org''"
    by (simp add: example_lib_def)
  have l: "lower ''example.com@evil.org'' = ''example.com@evil.org''"
    by code_simp
  have s: "sublist ''example.com'' ''example.com@evil.org''"
    by code_simp
  have h: "hostname ''example.com@evil.org'' = Some ''evil.org''"
    by code_simp
  have ns: "\<not> sublist ''example.com'' ''evil.org''"
    by code_simp
  show ?thesis
    using n l s h ns by (simp add: is_allowed_domain_def)
qed

section \<open>Retry and backoff\<close>

lemma fetch_loop_rate_limited:
  assumes "\<forall>n. r \<le> n \<and> n < k \<longrightarrow> (\<exists>b. srv n = Status 429 b \<or> srv n = Status 503 b)"
    and "r \<le> k" and "int k \<le> retry_limit cfg"
  shows "fetch_loop cfg srv r slept = fetch_loop cfg srv k (slept @ map (\<lambda>n. 2 ^ n) [r..<k])"
  using assms
proof (induction "k - r" arbitrary: r slept)
  case 0
  then show ?case by simp
next
  case (Suc d)
  then have rk: "r < k" by simp
  with Suc.prems obtain b where b: "srv r = Status 429 b \<or> srv r = Status 503 b" by blast
  have step: "fetch_loop cfg srv r slept = fetch_loop cfg srv (Suc r) (slept @ [2 ^ r])"
    using b rk Suc.prems(3) by (subst fetch_loop.simps) auto
  have "fetch_loop cfg srv (Suc r) (slept @ [2 ^ r])
      = fetch_loop cfg srv k ((slept @ [2 ^ r]) @ map (\<lambda>n. 2 ^ n) [Suc r..<k])"
    using Suc.hyps Suc.prems rk by (intro Suc.hyps(1)) auto
  with step show ?case using rk by (simp add: upt_conv_Cons)
qed

lemma fetch_loop_exhausted:
  "retry_limit cfg \<le> int k \<Longrightarrow> fetch_loop cfg srv k slept = (None, slept)"
  by (subst fetch_loop.simps) simp

lemma fetch_loop_ok:
  "int k < retry_limit cfg \<Longrightarrow> srv k = Status 200 body \<Longrightarrow> \<not> oversized cfg body
   \<Longrightarrow> fetch_loop cfg srv k slept = (Some body, slept)"
  by (subst fetch_loop.simps) simp

lemma fetch_loop_oversized:
  "int k < retry_limit cfg \<Longrightarrow> srv k = Status 200 body \<Longrightarrow> oversized cfg body
   \<Longrightarrow> fetch_loop cfg srv k slept = (None, slept)"
  by (subst fetch_loop.simps) simp

text \<open>
  Claim C5. A request that is answered 429 or 503 when the retry counter is \<open>n\<close>,
  below the limit, is followed by a sleep of \<open>2^n\<close> seconds and request \<open>n + 1\<close>.
  When the first \<open>k\<close> requests are answered 429 or 503 and \<open>k\<close> does not
  exceed the retry limit, the fetcher has slept \<open>2^0, ..., 2^(k-1)\<close> seconds when it
  comes to request \<open>k\<close>. If \<open>k\<close> is the retry limit it gives up with these sleeps; if
  request \<open>k\<close> is below the limit and is answered 200 with a body within the size
  ceiling, \<open>fetch\<close> returns the body, and for \<open>k = 3\<close> the sleeps add up to \<open>1+2+4\<close>.
\<close>

theorem fetch_backoff:
  assumes "\<forall>n<k. \<exists>b. srv n = Status 429 b \<or> srv n = Status 503 b"
    and "int k \<le> retry_limit cfg"
  shows "(\<forall>n slept b. int n < retry_limit cfg \<and> (srv n = Status 429 b \<or> srv n = Status 503 b) \<longrightarrow>
            fetch_loop cfg srv n slept = fetch_loop cfg srv (Suc n) (slept @ [2 ^ n]))
       \<and> fetch cfg srv = fetch_loop cfg srv k (map (\<lambda>n. 2 ^ n) [0..<k])
       \<and> (int k = retry_limit cfg \<longrightarrow> fetch cfg srv = (None, map (\<lambda>n. 2 ^ n) [0..<k]))
       \<and> (int k < retry_limit cfg \<and> srv k = Status 200 body \<and> \<not> oversized cfg body \<longrightarrow>
            fetch cfg srv = (Some body, map (\<lambda>n. 2 ^ n) [0..<k])
            \<and> (k = 3 \<longrightarrow> sum_list (snd (fetch cfg srv)) = 1 + 2 + 4))"
proof -
  have f: "fetch cfg srv = fetch_loop cfg srv k (map (\<lambda>n. 2 ^ n) [0..<k])"
    unfolding fetch_def using fetch_loop_rate_limited [of 0 k srv cfg "[]"] assms by simp
  have three: "map (\<lambda>n. 2 ^ n) [0..<3] = [1, 2, 4::nat]"
    by (simp add: upt_conv_Cons numeral_3_eq_3)
  have one: "\<forall>n slept b. int n < retry_limit cfg \<and> (srv n = Status 429 b \<or> srv n = Status 503 b) \<longrightarrow>
            fetch_loop cfg srv n slept = fetch_loop cfg srv (Suc n) (slept @ [2 ^ n])"
  proof (intro allI impI)
    fix n slept b
    assume "int n < retry_limit cfg \<and> (srv n = Status 429 b \<or> srv n = Status 503 b)"
    then show "fetch_loop cfg srv n slept = fetch_loop cfg srv (Suc n) (slept @ [2 ^ n])"
      by (subst fetch_loop.simps) auto
  qed
  have rest: "fetch cfg srv = fetch_loop cfg srv k (map (\<lambda>n. 2 ^ n) [0..<k])
       \<and> (int k = retry_limit cfg \<longrightarrow> fetch cfg srv = (None, map (\<lambda>n. 2 ^ n) [0..<k]))
       \<and> (int k < retry_limit cfg \<and> srv k = Status 200 body \<and> \<not> oversized cfg body \<longrightarrow>
            fetch cfg srv = (Some body, map (\<lambda>n. 2 ^ n) [0..<k])
            \<and> (k = 3 \<longrightarrow> sum_list (snd (fetch cfg srv)) = 1 + 2 + 4))"
    using f three by (auto simp: fetch_loop_exhausted fetch_loop_ok)
  from one rest show ?thesis by blast
qed

theorem fetch_backoff_witness:
  "fetch example_config (\<lambda>n. if n < 3 then Status 429 [] else Status 200 ''ok'') = (Some ''ok'', [1, 2, 4])
   \<and> sum_list (snd (fetch example_config (\<lambda>n. if n < 3 then Status 429 [] else Status 200 ''ok''))) = 7"
proof -
  let ?srv = "\<lambda>n::nat. if n < 3 then Status 429 [] else Status 200 ''ok''"
  have h1: "\<forall>n<3. \<exists>b. ?srv n = Status 429 b \<or> ?srv n = Status 503 b" by simp
  have h2: "int 3 \<le> retry_limit example_config" by (simp add: example_config_def)
  have h3: "\<not> oversized example_config ''ok''"
    by (simp add: oversized_def utf8_size_def example_config_def)
  have three: "map (\<lambda>n. 2 ^ n) [0..<3] = [1, 2, 4::nat]"
    by (simp add: upt_conv_Cons numeral_3_eq_3)
  have h4: "int 3 < retry_limit example_config" by (simp add: example_config_def)
  have h5: "?srv 3 = Status 200 ''ok''" by simp
  from fetch_backoff [OF h1 h2, of "''ok''"] h3 h4 h5
  have "fetch example_config ?srv = (Some ''ok'', map (\<lambda>n. 2 ^ n) [0..<3])
      \<and> sum_list (snd (fetch example_config ?srv)) = 1 + 2 + 4"
    by blast
  then show ?thesis using three by simp
qed

section \<open>Oversized responses\<close>

lemma fetch_loop_retriable:
  assumes "\<forall>n. r \<le> n \<and> n < k \<longrightarrow>
             srv n = Timeout \<or> srv n = Failure \<or> (\<exists>b. srv n = Status 429 b \<or> srv n = Status 503 b)"
    and "r \<le> k" and "int k \<le> retry_limit cfg"
  shows "\<exists>more. length more = k - r \<and> fetch_loop cfg srv r slept = fetch_loop cfg srv k (slept @ more)"
  using assms
proof (induction "k - r" arbitrary: r slept)
  case 0
  then show ?case by simp
next
  case (Suc d)
  then have rk: "r < k" by simp
  with Suc.prems have b: "srv r = Timeout \<or> srv r = Failure \<or> (\<exists>b. srv r = Status 429 b \<or> srv r = Status 503 b)"
    by blast
  have "\<exists>t. fetch_loop cfg srv r slept = fetch_loop cfg srv (Suc r) (slept @ [t])"
    using b rk Suc.prems(3) by (subst fetch_loop.simps) auto
  then obtain t where step: "fetch_loop cfg srv r slept = fetch_loop cfg srv (Suc r) (slept @ [t])" ..
  have "\<exists>more. length more = k - Suc r \<and>
        fetch_loop cfg srv (Suc r) (slept @ [t]) = fetch_loop cfg srv k ((slept @ [t]) @ more)"
    using Suc.hyps Suc.prems rk by (intro Suc.hyps(1)) auto
  then obtain more where m: "length more = k - Suc r"
    "fetch_loop cfg srv (Suc r) (slept @ [t]) = fetch_loop cfg srv k ((slept @ [t]) @ more)" by blast
  show ?case
    using step m rk by (intro exI [of _ "t # more"]) auto
qed

text \<open>
  Claim C1, as the code has it. When request \<open>k\<close> is the first that is not retried and
  it is answered 200 with a body above the size ceiling, \<open>fetch\<close> returns \<open>None\<close>
  without another request or sleep (it has slept \<open>k\<close> times, once per earlier retry),
  and \<open>process_url\<close> writes no record and does not count a crawled page; but it handles
  the \<open>None\<close> as every other failed fetch: \<open>pages_failed\<close> goes up by one, and so does
  the failure count of the URL.
\<close>

theorem oversized_counts_as_failure:
  assumes "\<forall>n<k. srv n = Timeout \<or> srv n = Failure \<or> (\<exists>b. srv n = Status 429 b \<or> srv n = Status 503 b)"
    and "int k < retry_limit cfg"
    and "srv k = Status 200 body" and "oversized cfg body"
    and "u \<notin> visited_urls s"
  shows "fst (fetch cfg srv) = None \<and> length (snd (fetch cfg srv)) = k
       \<and> data_file (process_url cfg lib srv write_ok u s) = data_file s
       \<and> pages_crawled (stats (process_url cfg lib srv write_ok u s)) = pages_crawled (stats s)
       \<and> pages_failed (stats (process_url cfg lib srv write_ok u s)) = pages_failed (stats s) + 1
       \<and> failed_urls (process_url cfg lib srv write_ok u s) u
           = Some ((case failed_urls s u of None \<Rightarrow> 0 | Some n \<Rightarrow> n) + 1)"
proof -
  from fetch_loop_retriable [of 0 k srv cfg "[]"] assms(1,2)
  obtain more where m: "length more = k" "fetch cfg srv = fetch_loop cfg srv k more"
    by (auto simp: fetch_def)
  then have f: "fetch cfg srv = (None, more)"
    using assms(2,3,4) by (simp add: fetch_loop_oversized)
  show ?thesis
    using f m(1) assms(5) by (simp add: process_url_def process_url_begin_def finish_failed)
qed

theorem oversized_counts_as_failure_witness:
  "fst (fetch example_config (\<lambda>n. if n < 1 then Timeout else Status 200 ''0123456789A'')) = None
   \<and> length (snd (fetch example_config (\<lambda>n. if n < 1 then Timeout else Status 200 ''0123456789A''))) = 1
   \<and> pages_failed (stats (process_url example_config example_lib
         (\<lambda>n. if n < 1 then Timeout else Status 200 ''0123456789A'') True
         ''http://example.com/'' (proc trace_w1))) = 1"
proof -
  let ?srv = "\<lambda>n::nat. if n < 1 then Timeout else Status 200 ''0123456789A''"
  have h1: "\<forall>n<1. ?srv n = Timeout \<or> ?srv n = Failure
       \<or> (\<exists>b. ?srv n = Status 429 b \<or> ?srv n = Status 503 b)"
    by simp
  have h2: "int 1 < retry_limit example_config" by simp
  have h3: "?srv 1 = Status 200 ''0123456789A''" by simp
  have h4: "oversized example_config ''0123456789A''"
    by (simp add: oversized_def utf8_size_def)
  have h5: "''http://example.com/'' \<notin> visited_urls (proc trace_w1)"
    by (simp add: trace_w1_fields)
  show ?thesis
    using oversized_counts_as_failure [OF h1 h2 h3 h4 h5, of example_lib True]
    by (simp add: trace_w1_fields)
qed

text \<open>
  The claim as the specification states it fails: the first seed of the example run,
  answered 200 with eleven bytes under a ceiling of ten, leaves \<open>pages_failed\<close> at one,
  not at zero.
\<close>

theorem oversized_counterexample:
  "oversized example_config ''0123456789A''
   \<and> pages_failed (stats (proc trace_w1)) = 0
   \<and> pages_failed (stats (process_url example_config example_lib (\<lambda>n. Status 200 ''0123456789A'') True
        ''http://example.com/'' (proc trace_w1))) = 1"
proof -
  have h4: "oversized example_config ''0123456789A''"
    by (simp add: oversized_def utf8_size_def)
  have h2: "int 0 < retry_limit example_config" by simp
  have "fetch example_config (\<lambda>n. Status 200 ''0123456789A'') = (None, [])"
    unfolding fetch_def using h2 h4 by (simp add: fetch_loop_oversized)
  then show ?thesis
    using h4 by (simp add: process_url_def process_url_begin_def finish_failed trace_w1_fields)
qed

section \<open>The guard on new links\<close>

lemma add_links_mono: "urls_to_visit s \<subseteq> urls_to_visit (add_links cfg links s)"
proof (induction links arbitrary: s)
  case Nil
  then show ?case by simp
next
  case (Cons link links)
  show ?case using Cons.IH [of "s\<lparr>urls_to_visit := insert link (urls_to_visit s)\<rparr>"] Cons.IH [of s]
    by auto
qed

lemma add_links_disjoint:
  "visited_urls s \<inter> urls_to_visit s = {} \<Longrightarrow>
   visited_urls (add_links cfg links s) \<inter> urls_to_visit (add_links cfg links s) = {}"
  by (induction links arbitrary: s) auto

lemma add_links_append:
  "add_links cfg (xs @ ys) s = add_links cfg ys (add_links cfg xs s)"
  by (induction xs arbitrary: s) auto

lemma add_links_finite:
  "finite (urls_to_visit s) \<Longrightarrow> finite (urls_to_visit (add_links cfg links s))"
  by (induction links arbitrary: s) auto

lemma add_links_iff:
  "link \<in> urls_to_visit (add_links cfg links s) \<longleftrightarrow>
     link \<in> urls_to_visit s \<or>
     (\<exists>pre post. links = pre @ link # post \<and> link \<notin> visited_urls s \<and>
        int (card (urls_to_visit (add_links cfg pre s))) < max_urls_to_crawl cfg)"
proof (induction links rule: rev_induct)
  case Nil
  show ?case by simp
next
  case (snoc x xs)
  let ?s1 = "add_links cfg xs s"
  let ?ok = "x \<notin> visited_urls s \<and> int (card (urls_to_visit ?s1)) < max_urls_to_crawl cfg"
  have last: "urls_to_visit (add_links cfg (xs @ [x]) s)
      = (if ?ok then insert x (urls_to_visit ?s1) else urls_to_visit ?s1)"
    by (simp add: add_links_append)
  show ?case
  proof
    assume in_new: "link \<in> urls_to_visit (add_links cfg (xs @ [x]) s)"
    show "link \<in> urls_to_visit s \<or>
       (\<exists>pre post. xs @ [x] = pre @ link # post \<and> link \<notin> visited_urls s \<and>
          int (card (urls_to_visit (add_links cfg pre s))) < max_urls_to_crawl cfg)"
    proof (cases "link \<in> urls_to_visit ?s1")
      case True
      with snoc.IH consider "link \<in> urls_to_visit s"
        | pre post where "xs = pre @ link # post" "link \<notin> visited_urls s"
            "int (card (urls_to_visit (add_links cfg pre s))) < max_urls_to_crawl cfg"
        by blast
      then show ?thesis
      proof cases
        case 1
        then show ?thesis by simp
      next
        case 2
        then have "xs @ [x] = pre @ link # (post @ [x])" by simp
        with 2 show ?thesis by blast
      qed
    next
      case False
      with in_new last have "?ok \<and> link = x" by (auto split: if_splits)
      then have "xs @ [x] = xs @ link # []" "link \<notin> visited_urls s"
        "int (card (urls_to_visit (add_links cfg xs s))) < max_urls_to_crawl cfg" by auto
      then show ?thesis by blast
    qed
  next
    assume rhs: "link \<in> urls_to_visit s \<or>
       (\<exists>pre post. xs @ [x] = pre @ link # post \<and> link \<notin> visited_urls s \<and>
          int (card (urls_to_visit (add_links cfg pre s))) < max_urls_to_crawl cfg)"
    show "link \<in> urls_to_visit (add_links cfg (xs @ [x]) s)"
    proof (cases "link \<in> urls_to_visit s")
      case True
      then show ?thesis using add_links_mono [of s cfg "xs @ [x]"] by blast
    next
      case False
      with rhs obtain pre post where p: "xs @ [x] = pre @ link # post" "link \<notin> visited_urls s"
        "int (card (urls_to_visit (add_links cfg pre s))) < max_urls_to_crawl cfg" by blast
      have "add_links cfg (pre @ link # post) s
          = add_links cfg post (add_links cfg [link] (add_links cfg pre s))"
        by (simp add: add_links_append)
      moreover have "link \<in> urls_to_visit (add_links cfg [link] (add_links cfg pre s))"
        using p(2,3) by simp
      ultimately show ?thesis
        using p(1) add_links_mono [of "add_links cfg [link] (add_links cfg pre s)" cfg post] by auto
    qed
  qed
qed

lemma add_links_card:
  "finite (urls_to_visit s) \<Longrightarrow>
   int (card (urls_to_visit (add_links cfg links s)))
     \<le> max (int (card (urls_to_visit s))) (max_urls_to_crawl cfg)"
proof (induction links arbitrary: s)
  case Nil
  show ?case by simp
next
  case (Cons l links)
  let ?ok = "l \<notin> visited_urls s \<and> int (card (urls_to_visit s)) < max_urls_to_crawl cfg"
  let ?s1 = "if ?ok then s\<lparr>urls_to_visit := insert l (urls_to_visit s)\<rparr> else s"
  have fin: "finite (urls_to_visit ?s1)" using Cons.prems by simp
  have one: "int (card (urls_to_visit ?s1)) \<le> max (int (card (urls_to_visit s))) (max_urls_to_crawl cfg)"
    using Cons.prems by (auto simp: card_insert_if)
  from Cons.IH [OF fin]
  have "int (card (urls_to_visit (add_links cfg links ?s1)))
          \<le> max (int (card (urls_to_visit ?s1))) (max_urls_to_crawl cfg)" .
  with one show ?case by simp
qed

text \<open>
  Claim C3, as the code has it. The loop over the new links adds a link to the pending
  set exactly when the link is not in the visited set and, at the moment the loop comes
  to it, the pending set has fewer than \<open>max_urls_to_crawl\<close> elements: line 428 compares
  the size of the pending set alone with the ceiling, each time anew, and the visited
  set does not count. So the loop never takes a pending set beyond the ceiling.
\<close>

theorem pending_guard:
  "(link \<in> urls_to_visit (add_links cfg links s) \<longleftrightarrow>
      link \<in> urls_to_visit s \<or>
      (\<exists>pre post. links = pre @ link # post \<and> link \<notin> visited_urls s \<and>
         int (card (urls_to_visit (add_links cfg pre s))) < max_urls_to_crawl cfg))
   \<and> (finite (urls_to_visit s) \<longrightarrow>
        int (card (urls_to_visit (add_links cfg links s)))
          \<le> max (int (card (urls_to_visit s))) (max_urls_to_crawl cfg))"
  using add_links_iff [of link cfg links s] add_links_card [of s cfg links] by blast

theorem pending_guard_witness:
  "''http://example.com/d'' \<in> urls_to_visit
       (add_links (example_config\<lparr>max_urls_to_crawl := 2\<rparr>)
          [''http://example.com/d'', ''http://example.com/e'', ''http://example.com/f'']
          ((init (example_config\<lparr>max_urls_to_crawl := 2\<rparr>) [])\<lparr>urls_to_visit := {''http://example.com/c''},
              visited_urls := {''http://example.com/'', ''http://example.com/b''}\<rparr>))
   \<and> ''http://example.com/e'' \<notin> urls_to_visit
       (add_links (example_config\<lparr>max_urls_to_crawl := 2\<rparr>)
          [''http://example.com/d'', ''http://example.com/e'', ''http://example.com/f'']
          ((init (example_config\<lparr>max_urls_to_crawl := 2\<rparr>) [])\<lparr>urls_to_visit := {''http://example.com/c''},
              visited_urls := {''http://example.com/'', ''http://example.com/b''}\<rparr>))
   \<and> int (card (urls_to_visit
       (add_links (example_config\<lparr>max_urls_to_crawl := 2\<rparr>)
          [''http://example.com/d'', ''http://example.com/e'', ''http://example.com/f'']
          ((init (example_config\<lparr>max_urls_to_crawl := 2\<rparr>) [])\<lparr>urls_to_visit := {''http://example.com/c''},
              visited_urls := {''http://example.com/'', ''http://example.com/b''}\<rparr>)))) \<le> 2"
proof -
  let ?cfg = "example_config\<lparr>max_urls_to_crawl := 2\<rparr>"
  let ?s = "(init ?cfg [])\<lparr>urls_to_visit := {''http://example.com/c''},
              visited_urls := {''http://example.com/'', ''http://example.com/b''}\<rparr>"
  let ?links = "[''http://example.com/d'', ''http://example.com/e'', ''http://example.com/f'']"
  have d: "\<exists>pre post. ?links = pre @ ''http://example.com/d'' # post
      \<and> ''http://example.com/d'' \<notin> visited_urls ?s
      \<and> int (card (urls_to_visit (add_links ?cfg pre ?s))) < max_urls_to_crawl ?cfg"
    by (intro exI [of _ "[]"] exI [of _ "[''http://example.com/e'', ''http://example.com/f'']"]) simp
  have fin: "finite (urls_to_visit ?s)" by simp
  have e: "''http://example.com/e'' \<notin> urls_to_visit (add_links ?cfg ?links ?s)"
    by simp
  from pending_guard [of "''http://example.com/d''" ?cfg ?links ?s] d fin
  have "''http://example.com/d'' \<in> urls_to_visit (add_links ?cfg ?links ?s)
      \<and> int (card (urls_to_visit (add_links ?cfg ?links ?s)))
           \<le> max (int (card (urls_to_visit ?s))) (max_urls_to_crawl ?cfg)"
    by blast
  then show ?thesis using e by simp
qed

text \<open>
  The claim as the specification states it fails. With a ceiling of two, two of the
  three seeds popped and marked visited and the third pending, a new link is added
  although visited plus pending is already three.
\<close>

theorem pending_guard_counterexample:
  "''http://example.com/d'' \<in> urls_to_visit
       (add_links (example_config\<lparr>max_urls_to_crawl := 2\<rparr>) [''http://example.com/d'']
          ((init (example_config\<lparr>max_urls_to_crawl := 2\<rparr>) [])\<lparr>urls_to_visit := {''http://example.com/c''},
              visited_urls := {''http://example.com/'', ''http://example.com/b''}\<rparr>))
   \<and> ''http://example.com/d'' \<notin> {''http://example.com/c''}
   \<and> ''http://example.com/d'' \<notin> {''http://example.com/'', ''http://example.com/b''}
   \<and> \<not> int (card {''http://example.com/'', ''http://example.com/b''} + card {''http://example.com/c''})
          < max_urls_to_crawl (example_config\<lparr>max_urls_to_crawl := 2\<rparr>)"
  by (simp add: init_def)

section \<open>Links come from stored pages only\<close>

lemma parse_content_rejects:
  assumes "soup lib html = Some d"
    and "int (length (clean_text (doc_text d))) < min_text_length cfg
         \<or> (remove_duplicates cfg \<and> md5 lib (clean_text (doc_text d)) \<in> content_hashes s)"
  shows "fst (parse_content cfg lib html u s) = None"
  using assms by (auto simp: parse_content_def Let_def)

lemma finish_pending_unchanged:
  assumes "fetched = None \<or> fetched = Some [] \<or> is_code_url cfg lib u
           \<or> fst (parse_content cfg lib (the fetched) u s) = None \<or> \<not> follow_external_links cfg"
  shows "urls_to_visit (process_url_finish cfg lib fetched ok u s) = urls_to_visit s"
  using assms
  by (auto simp: process_url_finish_def Let_def parse_content_frame
           split: prod.splits option.splits)

text \<open>
  Claim C10. If handling a fetched page changes the pending set, then the URL is not a
  code URL, \<open>follow_external_links\<close> is on and \<open>parse_content\<close> returned a record. A page
  whose cleaned text is shorter than \<open>min_text_length\<close>, or whose hash is already
  stored while \<open>remove_duplicates\<close> is on, gets no record and leaves the pending set as
  it was.
\<close>

theorem links_only_from_records:
  "(urls_to_visit (process_url_finish cfg lib fetched write_ok u s) \<noteq> urls_to_visit s \<longrightarrow>
      \<not> is_code_url cfg lib u \<and> follow_external_links cfg \<and>
      (\<exists>html. fetched = Some html \<and> fst (parse_content cfg lib html u s) \<noteq> None))
   \<and> (\<forall>html d. fetched = Some html \<and> soup lib html = Some d \<and> \<not> is_code_url cfg lib u \<and>
         (int (length (clean_text (doc_text d))) < min_text_length cfg
          \<or> (remove_duplicates cfg \<and> md5 lib (clean_text (doc_text d)) \<in> content_hashes s)) \<longrightarrow>
         fst (parse_content cfg lib html u s) = None \<and>
         urls_to_visit (process_url_finish cfg lib fetched write_ok u s) = urls_to_visit s)"
proof (intro conjI impI allI)
  assume ch: "urls_to_visit (process_url_finish cfg lib fetched write_ok u s) \<noteq> urls_to_visit s"
  with finish_pending_unchanged [of fetched cfg lib u s write_ok]
  have n: "fetched \<noteq> None" "\<not> is_code_url cfg lib u" "follow_external_links cfg"
    "fst (parse_content cfg lib (the fetched) u s) \<noteq> None" by auto
  show "\<not> is_code_url cfg lib u" by (rule n(2))
  show "follow_external_links cfg" by (rule n(3))
  from n(1) obtain html where "fetched = Some html" by auto
  with n(4) show "\<exists>html. fetched = Some html \<and> fst (parse_content cfg lib html u s) \<noteq> None"
    by auto
next
  fix html d
  assume a: "fetched = Some html \<and> soup lib html = Some d \<and> \<not> is_code_url cfg lib u \<and>
         (int (length (clean_text (doc_text d))) < min_text_length cfg
          \<or> (remove_duplicates cfg \<and> md5 lib (clean_text (doc_text d)) \<in> content_hashes s))"
  then show p: "fst (parse_content cfg lib html u s) = None"
    using parse_content_rejects [of lib html d cfg s u] by blast
  show "urls_to_visit (process_url_finish cfg lib fetched write_ok u s) = urls_to_visit s"
    using a p by (intro finish_pending_unchanged) auto
qed

theorem links_only_from_records_witness:
  "fst (parse_content example_config example_lib ''hello'' ''http://example.com/c'' (proc trace_w5)) = None
   \<and> urls_to_visit (process_url_finish example_config example_lib (Some ''hello'') True
         ''http://example.com/c'' (proc trace_w5)) = urls_to_visit (proc trace_w5)
   \<and> fst (parse_content example_config example_lib ''hi'' ''http://example.com/c'' (proc trace_w9)) = None
   \<and> urls_to_visit (process_url_finish example_config example_lib (Some ''hi'') True
         ''http://example.com/c'' (proc trace_w9)) = urls_to_visit (proc trace_w9)"
proof -
  have dup: "Some ''hello'' = Some ''hello''
      \<and> soup example_lib ''hello'' = Some \<lparr> doc_title = Some ''t'', doc_description = [],
                                           doc_keywords = [], doc_text = ''hello'' \<rparr>
      \<and> \<not> is_code_url example_config example_lib ''http://example.com/c''
      \<and> (int (length (clean_text (doc_text \<lparr> doc_title = Some ''t'', doc_description = [],
                                               doc_keywords = [], doc_text = ''hello'' \<rparr>)))
             < min_text_length example_config
          \<or> (remove_duplicates example_config
              \<and> md5 example_lib (clean_text (doc_text \<lparr> doc_title = Some ''t'', doc_description = [],
                                                         doc_keywords = [], doc_text = ''hello'' \<rparr>))
                  \<in> content_hashes (proc trace_w5)))"
    by (simp add: example_not_code clean_text_examples trace_w5_fields) (simp add: example_lib_def)
  have short: "Some ''hi'' = Some ''hi''
      \<and> soup example_lib ''hi'' = Some \<lparr> doc_title = Some ''t'', doc_description = [],
                                        doc_keywords = [], doc_text = ''hi'' \<rparr>
      \<and> \<not> is_code_url example_config example_lib ''http://example.com/c''
      \<and> (int (length (clean_text (doc_text \<lparr> doc_title = Some ''t'', doc_description = [],
                                               doc_keywords = [], doc_text = ''hi'' \<rparr>)))
             < min_text_length example_config
          \<or> (remove_duplicates example_config
              \<and> md5 example_lib (clean_text (doc_text \<lparr> doc_title = Some ''t'', doc_description = [],
                                                         doc_keywords = [], doc_text = ''hi'' \<rparr>))
                  \<in> content_hashes (proc trace_w9)))"
    by (simp add: example_not_code clean_text_examples) (simp add: example_lib_def)
  from links_only_from_records [of example_config example_lib "Some ''hello''" True
      "''http://example.com/c''" "proc trace_w5"] dup
  have one: "fst (parse_content example_config example_lib ''hello'' ''http://example.com/c'' (proc trace_w5)) = None
   \<and> urls_to_visit (process_url_finish example_config example_lib (Some ''hello'') True
         ''http://example.com/c'' (proc trace_w5)) = urls_to_visit (proc trace_w5)"
    by blast
  from links_only_from_records [of example_config example_lib "Some ''hi''" True
      "''http://example.com/c''" "proc trace_w9"] short
  have two: "fst (parse_content example_config example_lib ''hi'' ''http://example.com/c'' (proc trace_w9)) = None
   \<and> urls_to_visit (process_url_finish example_config example_lib (Some ''hi'') True
         ''http://example.com/c'' (proc trace_w9)) = urls_to_visit (proc trace_w9)"
    by blast
  from one two show ?thesis by simp
qed

section \<open>Checkpoints\<close>




section \<open>Rewriting the checkpoint file\<close>

text \<open>
  Claim C7, as the code has it. \<open>save_checkpoint\<close> rewrites the checkpoint file in
  place: the file holds the old document, then nothing (it is opened with mode \<open>w\<close>),
  then the new document. No temporary file and no rename are involved, so whenever
  the old and the new document are not empty, the file passes through a content that
  is neither of them.
\<close>

theorem checkpoint_file_overwrite:
  "save_checkpoint_file old doc = [old, [], doc]
   \<and> last (save_checkpoint_file old doc) = doc
   \<and> (old \<noteq> [] \<and> doc \<noteq> [] \<longrightarrow>
        (\<exists>seen \<in> set (save_checkpoint_file old doc). seen \<noteq> old \<and> seen \<noteq> doc))"
  by (auto simp: save_checkpoint_file_def open_w_def write_str_def)

theorem checkpoint_file_overwrite_witness:
  "save_checkpoint_file ''{ }'' ''{}'' = [''{ }'', [], ''{}'']
   \<and> (\<exists>seen \<in> set (save_checkpoint_file ''{ }'' ''{}''). seen \<noteq> ''{ }'' \<and> seen \<noteq> ''{}'')"
proof -
  have h: "''{ }'' \<noteq> [] \<and> ''{}'' \<noteq> []" by simp
  from checkpoint_file_overwrite [of "''{ }''" "''{}''"] h show ?thesis by blast
qed

text \<open>
  The claim as the specification states it fails: between two documents the file is
  empty, which is neither of them.
\<close>

theorem checkpoint_file_counterexample:
  "[] \<in> set (save_checkpoint_file ''{}'' ''{ }'') \<and> [] \<noteq> ''{}'' \<and> [] \<noteq> ''{ }''"
  by (simp add: save_checkpoint_file_def open_w_def write_str_def)

section \<open>The frontier invariant\<close>

lemma finish_disjoint:
  assumes "visited_urls s \<inter> urls_to_visit s = {}"
  shows "visited_urls (process_url_finish cfg lib fetched ok u s)
         \<inter> urls_to_visit (process_url_finish cfg lib fetched ok u s) = {}"
proof -
  have "\<And>data s'. parse_content cfg lib (the fetched) u s = (data, s') \<Longrightarrow>
     visited_urls (add_links cfg (extract_links cfg lib (the fetched) u) s')
       \<inter> urls_to_visit (add_links cfg (extract_links cfg lib (the fetched) u) s') = {}"
    using assms by (intro add_links_disjoint) (simp add: parse_content_frame)
  then show ?thesis
    using assms
    by (auto simp: process_url_finish_def Let_def parse_content_frame
             split: prod.splits option.splits)
qed

lemma begin_url_cases:
  "process_url_begin u s = (go, s') \<Longrightarrow>
   urls_to_visit s' = urls_to_visit s \<and> visited_urls s' = insert u (visited_urls s) \<and>
   (go \<longleftrightarrow> u \<notin> visited_urls s)"
  by (auto simp: process_url_begin_def split: if_splits)

lemma start_run_disjoint:
  assumes "\<forall>ck. file = Some ck \<longrightarrow> set (ck_visited_urls ck) \<inter> set (ck_urls_to_visit ck) = {}"
  shows "visited_urls (start_run cfg resume file old_lines now)
         \<inter> urls_to_visit (start_run cfg resume file old_lines now) = {}"
  using assms
  by (auto simp: start_run_def Let_def load_checkpoint_def init_def split: option.splits)

lemma step_inv:
  assumes "step cfg lib w w'"
    and "visited_urls (proc w) \<inter> urls_to_visit (proc w) = {}"
    and "distinct (urls_batch w)"
    and "set (urls_batch w) \<inter> visited_urls (proc w) = {}"
    and "set (urls_batch w) \<inter> urls_to_visit (proc w) = {}"
    and "set (in_flight w) \<subseteq> visited_urls (proc w)"
    and "distinct (in_flight w)"
    and "\<forall>ck. checkpoint_file w = Some ck \<longrightarrow> set (ck_visited_urls ck) \<inter> set (ck_urls_to_visit ck) = {}"
    and "\<forall>d \<in> set (drafts w). set (ck_visited_urls d) \<inter> set (ck_urls_to_visit d) = {}"
  shows "visited_urls (proc w') \<inter> urls_to_visit (proc w') = {}
       \<and> distinct (urls_batch w')
       \<and> set (urls_batch w') \<inter> visited_urls (proc w') = {}
       \<and> set (urls_batch w') \<inter> urls_to_visit (proc w') = {}
       \<and> set (in_flight w') \<subseteq> visited_urls (proc w')
       \<and> distinct (in_flight w')
       \<and> (\<forall>ck. checkpoint_file w' = Some ck \<longrightarrow> set (ck_visited_urls ck) \<inter> set (ck_urls_to_visit ck) = {})
       \<and> (\<forall>d \<in> set (drafts w'). set (ck_visited_urls d) \<inter> set (ck_urls_to_visit d) = {})"
  using assms(1)
proof (cases rule: step.cases)
  case (pop time_up batch_size us)
  then show ?thesis using assms(2-) by auto
next
  case (begin_url u us go s')
  from begin_url_cases [OF begin_url(3)] begin_url(1,2) assms(2-)
  show ?thesis by auto
next
  case (acquire u)
  then show ?thesis using assms(2-) by auto
next
  case (finish_url u srv write_ok)
  then show ?thesis
    using assms(2-) finish_disjoint [OF assms(2)]
    by (auto dest: notin_set_remove1)
next
  case stop
  then show ?thesis using assms(2-) by auto
next
  case (snapshot_begin d)
  then show ?thesis using assms(2-) by (auto simp: save_checkpoint_state_def)
next
  case (snapshot_write d)
  then show ?thesis
    using assms(2-) by (auto simp: save_checkpoint_dump_def dest: notin_set_remove1)
qed

lemma reachable_inv:
  assumes "reachable cfg lib w"
  shows "visited_urls (proc w) \<inter> urls_to_visit (proc w) = {}
       \<and> distinct (urls_batch w)
       \<and> set (urls_batch w) \<inter> visited_urls (proc w) = {}
       \<and> set (urls_batch w) \<inter> urls_to_visit (proc w) = {}
       \<and> set (in_flight w) \<subseteq> visited_urls (proc w)
       \<and> distinct (in_flight w)
       \<and> (\<forall>ck. checkpoint_file w = Some ck \<longrightarrow> set (ck_visited_urls ck) \<inter> set (ck_urls_to_visit ck) = {})
       \<and> (\<forall>d \<in> set (drafts w). set (ck_visited_urls d) \<inter> set (ck_urls_to_visit d) = {})"
  using assms
proof (induction rule: reachable.induct)
  case (first resume now)
  show ?case using start_run_disjoint [of None cfg resume "[]" now] by simp
next
  case (run w w')
  then show ?case using step_inv [of cfg lib w w'] by blast
next
  case (restart w found resume now)
  then have ck: "\<forall>ck. checkpoint_file w = Some ck \<longrightarrow>
                   set (ck_visited_urls ck) \<inter> set (ck_urls_to_visit ck) = {}"
    and f: "found = checkpoint_file w \<or> found = None"
    by blast+
  have "\<forall>ck. found = Some ck \<longrightarrow> set (ck_visited_urls ck) \<inter> set (ck_urls_to_visit ck) = {}"
  proof (intro allI impI)
    fix c
    assume "found = Some c"
    with f have "checkpoint_file w = Some c" by auto
    with ck show "set (ck_visited_urls c) \<inter> set (ck_urls_to_visit c) = {}" by blast
  qed
  then show ?case
    using start_run_disjoint [of found cfg resume "data_file (proc w)" now] by simp
qed

lemma step_visited:
  assumes "step cfg lib w w'"
  shows "visited_urls (proc w) \<subseteq> visited_urls (proc w')
       \<and> (visited_urls (proc w') \<noteq> visited_urls (proc w) \<longrightarrow>
            (\<exists>u. urls_batch w = u # urls_batch w' \<and> u \<notin> visited_urls (proc w)
                 \<and> visited_urls (proc w') = insert u (visited_urls (proc w))
                 \<and> in_flight w' = in_flight w @ [u]))"
  using assms
proof (cases rule: step.cases)
  case (begin_url u us go s')
  from begin_url_cases [OF begin_url(3)] begin_url(1,2)
  show ?thesis by auto
qed auto

lemma run_visited:
  assumes "reachable_from cfg lib w w'"
  shows "visited_urls (proc w) \<subseteq> visited_urls (proc w')"
  using assms
proof (induction rule: reachable_from.induct)
  case started
  show ?case by simp
next
  case (stepped w1 w2)
  then show ?case using step_visited [of cfg lib w1 w2] by blast
qed

text \<open>
  Claim C4, as the code has it. In every world that runs of the crawler reach, also
  across restarts from a checkpoint, the visited set and the pending set are disjoint.
  A URL is added to the visited set not when it is popped but when its coroutine
  starts: a URL that was popped and whose coroutine has not started is in neither set,
  and the first lines of \<open>process_url\<close> put it into the visited set. A URL whose fetch is
  under way is in the visited set already, and whatever the fetch returns, the rest of
  \<open>process_url\<close> leaves the visited set as it is. No step of a process takes a URL out
  of the visited set, and the only step that changes the set is the start of the
  coroutine of the next URL of the batch, which adds that URL, not visited before; so
  within a process a URL is added once and stays.
\<close>

theorem frontier_invariant:
  assumes "reachable cfg lib w"
  shows "visited_urls (proc w) \<inter> urls_to_visit (proc w) = {}
       \<and> (\<forall>u \<in> set (urls_batch w).
             u \<notin> visited_urls (proc w) \<and> u \<notin> urls_to_visit (proc w) \<and>
             process_url_begin u (proc w) = (True, (proc w)\<lparr>visited_urls := insert u (visited_urls (proc w))\<rparr>))
       \<and> (\<forall>u \<in> set (in_flight w). \<forall>fetched write_ok.
             u \<in> visited_urls (proc w) \<and>
             visited_urls (process_url_finish cfg lib fetched write_ok u (proc w)) = visited_urls (proc w))
       \<and> (\<forall>w'. step cfg lib w w' \<longrightarrow>
             visited_urls (proc w) \<subseteq> visited_urls (proc w') \<and>
             (visited_urls (proc w') \<noteq> visited_urls (proc w) \<longrightarrow>
                (\<exists>u. urls_batch w = u # urls_batch w' \<and> u \<notin> visited_urls (proc w)
                     \<and> visited_urls (proc w') = insert u (visited_urls (proc w))
                     \<and> in_flight w' = in_flight w @ [u])))
       \<and> (\<forall>w'. reachable_from cfg lib w w' \<longrightarrow> visited_urls (proc w) \<subseteq> visited_urls (proc w'))"
proof -
  have inv: "visited_urls (proc w) \<inter> urls_to_visit (proc w) = {}
       \<and> (\<forall>u \<in> set (urls_batch w).
             u \<notin> visited_urls (proc w) \<and> u \<notin> urls_to_visit (proc w) \<and>
             process_url_begin u (proc w) = (True, (proc w)\<lparr>visited_urls := insert u (visited_urls (proc w))\<rparr>))
       \<and> (\<forall>u \<in> set (in_flight w). \<forall>fetched write_ok.
             u \<in> visited_urls (proc w) \<and>
             visited_urls (process_url_finish cfg lib fetched write_ok u (proc w)) = visited_urls (proc w))"
    using reachable_inv [OF assms] by (auto simp: process_url_begin_def)
  have st: "\<forall>w'. step cfg lib w w' \<longrightarrow>
             visited_urls (proc w) \<subseteq> visited_urls (proc w') \<and>
             (visited_urls (proc w') \<noteq> visited_urls (proc w) \<longrightarrow>
                (\<exists>u. urls_batch w = u # urls_batch w' \<and> u \<notin> visited_urls (proc w)
                     \<and> visited_urls (proc w') = insert u (visited_urls (proc w))
                     \<and> in_flight w' = in_flight w @ [u]))"
    using step_visited [of cfg lib w] by blast
  have rn: "\<forall>w'. reachable_from cfg lib w w' \<longrightarrow> visited_urls (proc w) \<subseteq> visited_urls (proc w')"
    using run_visited [of cfg lib w] by blast
  from inv st rn show ?thesis by blast
qed

theorem frontier_invariant_witness:
  "reachable example_config example_lib trace_w2
   \<and> step example_config example_lib trace_w2 trace_w3
   \<and> reachable_from example_config example_lib trace_w2 trace_w3
   \<and> visited_urls (proc trace_w2) \<inter> urls_to_visit (proc trace_w2) = {}
   \<and> ''http://example.com/b'' \<in> set (urls_batch trace_w2)
   \<and> ''http://example.com/b'' \<notin> visited_urls (proc trace_w2)
   \<and> ''http://example.com/b'' \<notin> urls_to_visit (proc trace_w2)
   \<and> ''http://example.com/'' \<in> set (in_flight trace_w2)
   \<and> ''http://example.com/'' \<in> visited_urls (proc trace_w2)
   \<and> visited_urls (proc trace_w2) \<subseteq> visited_urls (proc trace_w3)
   \<and> visited_urls (proc trace_w3) = insert ''http://example.com/b'' (visited_urls (proc trace_w2))"
proof -
  have b: "''http://example.com/b'' \<in> set (urls_batch trace_w2)"
    and a: "''http://example.com/'' \<in> set (in_flight trace_w2)"
    by (simp_all add: trace_w2_fields)
  have r: "reachable_from example_config example_lib trace_w2 trace_w3"
    by (rule reachable_from.stepped [OF reachable_from.started trace_step3])
  have grows: "visited_urls (proc trace_w3) = insert ''http://example.com/b'' (visited_urls (proc trace_w2))"
    by (auto simp: trace_w3_fields trace_w2_fields)
  from frontier_invariant [OF trace_reach2] a b r trace_step3
  have "visited_urls (proc trace_w2) \<inter> urls_to_visit (proc trace_w2) = {}
      \<and> ''http://example.com/b'' \<notin> visited_urls (proc trace_w2)
      \<and> ''http://example.com/b'' \<notin> urls_to_visit (proc trace_w2)
      \<and> ''http://example.com/'' \<in> visited_urls (proc trace_w2)
      \<and> visited_urls (proc trace_w2) \<subseteq> visited_urls (proc trace_w3)"
    by blast
  with a b r trace_step3 trace_reach2 grows show ?thesis by blast
qed

text \<open>
  The claim as the specification states it fails. In the example run, right after the
  first pop, the first seed is dequeued and not in the visited set; a checkpoint
  written at that moment lists it neither as visited nor as pending.
\<close>

theorem frontier_gap_counterexample:
  "reachable example_config example_lib trace_gap2
   \<and> ''http://example.com/'' \<in> set (urls_batch trace_gap2)
   \<and> ''http://example.com/'' \<notin> visited_urls (proc trace_gap2)
   \<and> checkpoint_file trace_gap2 = Some (save_checkpoint_dump trace_gap_draft (proc trace_w1))
   \<and> ''http://example.com/'' \<notin> set (ck_visited_urls (save_checkpoint_dump trace_gap_draft (proc trace_w1)))
   \<and> ''http://example.com/'' \<notin> set (ck_urls_to_visit (save_checkpoint_dump trace_gap_draft (proc trace_w1)))"
  using trace_reach_gap2
  by (simp add: trace_gap2_fields trace_w1_fields save_checkpoint_dump_def trace_gap_draft_def)

section \<open>The concurrency limit\<close>

lemma step_semaphore:
  assumes "step cfg lib w w'"
    and "int (length (holders w)) + permits w = limit" and "0 \<le> permits w"
    and "distinct (holders w)" and "set (holders w) \<subseteq> set (in_flight w)"
    and "distinct (in_flight w)"
  shows "int (length (holders w')) + permits w' = limit \<and> 0 \<le> permits w'
       \<and> distinct (holders w') \<and> set (holders w') \<subseteq> set (in_flight w')"
  using assms(1)
proof (cases rule: step.cases)
  case (pop time_up batch_size us)
  then show ?thesis using assms(2-) by auto
next
  case (begin_url u us go s')
  then show ?thesis using assms(2-) by auto
next
  case (acquire u)
  then show ?thesis using assms(2-) by auto
next
  case (finish_url u srv write_ok)
  then have "\<exists>n. length (holders w) = Suc n" by (cases "holders w") auto
  then obtain n where n: "length (holders w) = Suc n" ..
  then have len: "int (length (remove1 u (holders w))) + 1 = int (length (holders w))"
    using finish_url(3) by (simp add: length_remove1)
  have sub: "set (remove1 u (holders w)) \<subseteq> set (remove1 u (in_flight w))"
    using assms(4,5,6) by auto
  from finish_url len sub show ?thesis
    using assms(2-4) by auto
next
  case stop
  then show ?thesis using assms(2-) by auto
next
  case (snapshot_begin d)
  then show ?thesis using assms(2-) by auto
next
  case (snapshot_write d)
  then show ?thesis using assms(2-) by auto
qed

lemma reachable_semaphore:
  assumes "reachable cfg lib w" and "0 \<le> max_concurrent_requests cfg"
  shows "int (length (holders w)) + permits w = max_concurrent_requests cfg \<and> 0 \<le> permits w
       \<and> distinct (holders w) \<and> set (holders w) \<subseteq> set (in_flight w)"
  using assms(1)
proof (induction rule: reachable.induct)
  case (first resume now)
  show ?case using assms(2) by simp
next
  case (run w w')
  from reachable_inv [OF run.hyps(1)] have "distinct (in_flight w)" by blast
  with run show ?case
    using step_semaphore [of cfg lib w w' "max_concurrent_requests cfg"] by blast
next
  case (restart w found resume now)
  show ?case using assms(2) by simp
qed

text \<open>
  Claim C8. \<open>asyncio.Semaphore\<close> refuses a negative value, so a collector exists only
  for a limit that is not negative. Then in every world that runs of the crawler
  reach, the requests under way, which are the coroutines inside
  \<open>async with self.semaphore\<close>, are at most \<open>max_concurrent_requests\<close>: together with
  the free permits they make up the limit. Each belongs to a different URL whose
  coroutine is suspended in \<open>fetch\<close>. The witness has a batch of two and a limit of one.
\<close>

theorem concurrency_bound:
  assumes "reachable cfg lib w" and "0 \<le> max_concurrent_requests cfg"
  shows "int (length (holders w)) \<le> max_concurrent_requests cfg
       \<and> int (length (holders w)) + permits w = max_concurrent_requests cfg
       \<and> 0 \<le> permits w
       \<and> distinct (holders w) \<and> set (holders w) \<subseteq> set (in_flight w)"
  using reachable_semaphore [OF assms] by auto

theorem concurrency_bound_witness:
  "reachable example_config example_lib trace_w3h
   \<and> 0 \<le> max_concurrent_requests example_config
   \<and> max_concurrent_requests example_config = 1
   \<and> length (in_flight trace_w3h) = 2
   \<and> holders trace_w3h = [''http://example.com/'']
   \<and> int (length (holders trace_w3h)) \<le> max_concurrent_requests example_config
   \<and> permits trace_w3h = 0"
proof -
  have h: "0 \<le> max_concurrent_requests example_config" by simp
  from concurrency_bound [OF trace_reach3h h] trace_reach3h
  show ?thesis by (simp add: trace_w3h_fields)
qed

section \<open>Duplicate suppression\<close>

lemma parse_content_admits:
  assumes "parse_content cfg lib html u s = (Some d, s')" and "remove_duplicates cfg"
  shows "is_Webpage d \<and> md5 lib (content d) \<notin> content_hashes s
       \<and> content_hashes s' = insert (md5 lib (content d)) (content_hashes s)"
  using assms
  by (auto simp: parse_content_def Let_def split: option.splits if_splits)

lemma parse_content_hashes_mono:
  assumes "parse_content cfg lib html u s = (data, s')"
  shows "content_hashes s \<subseteq> content_hashes s'"
  using assms
  by (auto simp: parse_content_def Let_def split: option.splits if_splits)

lemma parse_code_content_Code:
  "parse_code_content cfg lib c u = Some d \<Longrightarrow> is_Code d"
  by (auto simp: parse_code_content_def Let_def split: if_splits)

lemma finish_log:
  assumes "remove_duplicates cfg"
  shows "content_hashes s \<subseteq> content_hashes (process_url_finish cfg lib fetched ok u s)
     \<and> (\<exists>new. data_file (process_url_finish cfg lib fetched ok u s) = data_file s @ new
          \<and> (new = [] \<or> (\<exists>d. new = [d] \<and>
                 (is_Webpage d \<longrightarrow> md5 lib (content d) \<notin> content_hashes s
                     \<and> md5 lib (content d) \<in> content_hashes (process_url_finish cfg lib fetched ok u s)))))"
proof (cases "fetched = None \<or> fetched = Some []")
  case True
  then show ?thesis by (simp add: finish_failed)
next
  case False
  then obtain c where c: "fetched = Some c" "c \<noteq> []" by auto
  show ?thesis
  proof (cases "is_code_url cfg lib u")
    case True
    then show ?thesis
      using c parse_code_content_Code [of cfg lib c u]
      by (auto simp: process_url_finish_def Let_def save_data_log data_record.disc
               split: option.splits)
  next
    case nc: False
    obtain data s' where p: "parse_content cfg lib c u s = (data, s')"
      by (cases "parse_content cfg lib c u s")
    show ?thesis
    proof (cases data)
      case None
      then show ?thesis
        using c nc p parse_content_hashes_mono [OF p]
        by (auto simp: process_url_finish_def Let_def parse_content_frame)
    next
      case (Some d)
      with p have p': "parse_content cfg lib c u s = (Some d, s')" by simp
      from parse_content_admits [OF p' assms] parse_content_frame(3) [OF p']
      show ?thesis
        using c nc p'
        by (auto simp: process_url_finish_def Let_def save_data_log)
    qed
  qed
qed

lemma step_log:
  assumes "step cfg lib w w'" and "remove_duplicates cfg"
  shows "content_hashes (proc w) \<subseteq> content_hashes (proc w')
     \<and> (\<exists>new. data_file (proc w') = data_file (proc w) @ new
          \<and> (new = [] \<or> (\<exists>d. new = [d] \<and>
                 (is_Webpage d \<longrightarrow> md5 lib (content d) \<notin> content_hashes (proc w)
                     \<and> md5 lib (content d) \<in> content_hashes (proc w')))))"
  using assms(1)
proof (cases rule: step.cases)
  case (finish_url u srv write_ok)
  then show ?thesis using finish_log [OF assms(2), of s for s] by simp
next
  case (begin_url u us go s')
  then show ?thesis by (auto simp: process_url_begin_def split: if_splits)
qed auto

lemma run_log:
  assumes "reachable_from cfg lib w0 w" and "remove_duplicates cfg"
  shows "\<exists>new. data_file (proc w) = data_file (proc w0) @ new
        \<and> distinct (map (fingerprint lib) (filter is_Webpage new))
        \<and> (\<forall>r \<in> set (filter is_Webpage new). fingerprint lib r \<in> content_hashes (proc w))
        \<and> content_hashes (proc w0) \<subseteq> content_hashes (proc w)"
  using assms(1)
proof (induction rule: reachable_from.induct)
  case started
  show ?case by simp
next
  case (stepped w w')
  then obtain new where n: "data_file (proc w) = data_file (proc w0) @ new"
    "distinct (map (fingerprint lib) (filter is_Webpage new))"
    "\<forall>r \<in> set (filter is_Webpage new). fingerprint lib r \<in> content_hashes (proc w)"
    "content_hashes (proc w0) \<subseteq> content_hashes (proc w)" by blast
  from step_log [OF stepped.hyps(2) assms(2)]
  obtain more where m: "content_hashes (proc w) \<subseteq> content_hashes (proc w')"
    "data_file (proc w') = data_file (proc w) @ more"
    "more = [] \<or> (\<exists>d. more = [d] \<and>
                 (is_Webpage d \<longrightarrow> fingerprint lib d \<notin> content_hashes (proc w)
                     \<and> fingerprint lib d \<in> content_hashes (proc w')))"
    unfolding fingerprint_def by blast
  show ?case
  proof (intro exI [of _ "new @ more"] conjI)
    show "data_file (proc w') = data_file (proc w0) @ new @ more" using n(1) m(2) by simp
    show "distinct (map (fingerprint lib) (filter is_Webpage (new @ more)))"
      using n(2,3) m(3) by auto
    show "\<forall>r \<in> set (filter is_Webpage (new @ more)). fingerprint lib r \<in> content_hashes (proc w')"
      using n(3) m(1,3) by auto
    show "content_hashes (proc w0) \<subseteq> content_hashes (proc w')" using n(4) m(1) by blast
  qed
qed

text \<open>
  Claim C2, as the code has it. With \<open>remove_duplicates\<close> on, the webpage records that
  one process appends to the output file have pairwise different fingerprints. The
  checkpoint holds no fingerprints: \<open>load_checkpoint\<close> leaves the fingerprint set as it
  finds it, and a process, resumed or not, starts with the empty set.
\<close>

theorem dedup_within_one_process:
  assumes "remove_duplicates cfg" and "reachable_from cfg lib w0 w"
  shows "content_hashes (snd (load_checkpoint file s)) = content_hashes s
       \<and> content_hashes (start_run cfg resume file old_lines now) = {}
       \<and> (\<exists>new. data_file (proc w) = data_file (proc w0) @ new
             \<and> distinct (map (fingerprint lib) (filter is_Webpage new)))"
  using run_log [OF assms(2,1)] by (auto simp: start_run_def Let_def init_def)

theorem dedup_within_one_process_witness:
  "remove_duplicates example_config
   \<and> reachable_from example_config example_lib trace_w7 trace_w10
   \<and> content_hashes (proc trace_w7) = {}
   \<and> (\<exists>new. data_file (proc trace_w10) = data_file (proc trace_w7) @ new
         \<and> distinct (map (fingerprint example_lib) (filter is_Webpage new)))"
proof -
  have h: "remove_duplicates example_config" by simp
  from dedup_within_one_process [OF h trace_second_process]
  show ?thesis using h trace_second_process by (simp add: trace_w7_fields)
qed

text \<open>
  The claim as the specification states it fails. The example run is reachable, its
  second process resumed from the checkpoint of the first, and the output file ends
  with two webpage records of the same fingerprint.
\<close>

theorem resume_duplicates_counterexample:
  "reachable example_config example_lib trace_w10
   \<and> map (fingerprint example_lib) (filter is_Webpage (data_file (proc trace_w10))) = [''hello'', ''hello'']"
proof
  show "reachable example_config example_lib trace_w10"
    by (rule reachable.run [OF reachable.run [OF reachable.run [OF reachable.run
          [OF trace_reach7 trace_step8] trace_step9] trace_step9h] trace_step10])
  show "map (fingerprint example_lib) (filter is_Webpage (data_file (proc trace_w10))) = [''hello'', ''hello'']"
    by (simp add: trace_w10_log fingerprint_def example_lib_def)
qed

end
